theory Spec2Isabelle
  imports Main
begin

section \<open>Data model\<close>

text \<open>
  The program is the command-line entry point of giantbomb-show-dl (one TypeScript file).
  Its collaborators are outside the file: the catalog API client, the download tracker,
  the logger, and the libraries dayjs, sanitize-filename, path and fs. The embedding
  keeps the control flow of the three procedures \<open>downloadShow\<close>,
  \<open>downloadVideosById\<close> and \<open>downloadVideo\<close> as written, threads one explicit state
  through them, and records every call to a collaborator in a trace.

  JavaScript strings are modelled as \<open>string\<close> (a list of code units); an optional
  string property (\<open>undefined\<close>, \<open>null\<close> or a string) as \<open>string option\<close>.

  \<open>fs.writeFileSync\<close> and \<open>fs.mkdirSync\<close> throw when the operating system refuses the
  call (a name that is too long, no permission, no space left). The program has no
  \<open>try\<close>, so such an exception ends the procedure it is thrown in, every caller, and the
  run; this is a result of its own, carrying the state reached. The API client and the
  tracker are taken to answer as the spec gives them (a success flag, a record or
  nothing), without throwing.
\<close>

text \<open>The four values accepted for \<open>--quality\<close> (\<open>QUALITY_OPTIONS\<close>); \<open>initProgram\<close>
  exits on any other value.\<close>

datatype quality = QUALITY_LOW | QUALITY_HIGH | QUALITY_HD | QUALITY_HIGHEST

text \<open>\<open>DownloadCounter\<close>. The counters are JavaScript numbers that only ever grow by
  one per loop iteration; they are modelled as natural numbers.\<close>

record DownloadCounter =
  downloaded :: nat
  skipped :: nat
  failed :: nat

text \<open>The fields of a \<open>Video\<close> that the program reads. \<open>video_id\<close> is the property
  \<open>id\<close>, as the ledger key it is used for; \<open>image_url\<close> stands for
  \<open>video?.image?.original_url\<close>.\<close>

record Video =
  video_id :: string
  name :: string
  publish_date :: string
  image_url :: "string option"
  low_url :: "string option"
  high_url :: "string option"
  hd_url :: "string option"

text \<open>The fields of a show that the program reads: \<open>show.title\<close>,
  \<open>show?.image?.original_url\<close> and \<open>show?.logo?.original_url\<close>.\<close>

record Show =
  title :: string
  show_image_url :: "string option"
  show_logo_url :: "string option"

text \<open>The parsed command line (\<open>program\<close>), after \<open>initProgram\<close> has validated it.\<close>

record program =
  opt_show :: "string option"
  opt_video_id :: "string option"
  opt_quality :: quality
  opt_from_date :: "string option"
  opt_to_date :: "string option"

text \<open>A dayjs value: an invalid date, or an instant in milliseconds on the local time
  line.\<close>

datatype Dayjs = Invalid | Instant int

text \<open>What a file holds: the JSON text of a show or of a video
  (\<open>JSON.stringify(x, null, 2)\<close>), or the bytes fetched from a URL.\<close>

datatype content = JsonShow Show | JsonVideo Video | Fetched string

text \<open>The calls the program makes to its collaborators, in the order it makes them. The
  flag of a call to \<open>fs\<close> tells whether it returned (\<open>True\<close>) or threw; the flag of an API
  call is its answer.\<close>

datatype effect =
    LoggerDebug string
  | LoggerEpisodeSkipBeforeDate string Dayjs "Dayjs option"
  | LoggerEpisodeSkipAfterDate string Dayjs "Dayjs option"
  | LoggerPosterDownload string string
  | LoggerVideoSkipDownloaded string
  | LoggerVideoSkipNoURL string quality
  | LoggerVideoDownload string string
  | LoggerShowComplete string DownloadCounter
  | LoggerVideosComplete nat DownloadCounter
  | FsMkdir string bool
  | FsWriteFile string content bool
  | ApiGetShowInfo "string option"
  | ApiGetVideos Show
  | ApiGetVideoById string
  | ApiDownloadFile string string bool
  | ApiCheckIfExists string bool
  | TrackerMarkDownloaded string string

text \<open>
  The state: the file system (files and directories), the ledger file of every directory
  (the keys marked completed), the counter object of the running invocation, and the
  trace of calls made so far.
\<close>

record state =
  files :: "string \<rightharpoonup> content"
  dirs :: "string set"
  ledger :: "string \<Rightarrow> string set"
  counts :: DownloadCounter
  trace :: "effect list"

text \<open>
  The libraries, taken as parameters: \<open>sanitize\<close> is
  \<open>sanitize(_, { replacement: "_" })\<close> of sanitize-filename, \<open>extname\<close> and \<open>join\<close>
  are \<open>path.extname\<close> and \<open>path.join\<close>, \<open>dayjs\<close> is the dayjs parser.
  \<open>writeThrows n p\<close> tells whether \<open>fs.writeFileSync\<close> of the path \<open>p\<close>, called after \<open>n\<close>
  collaborator calls, throws; \<open>mkdirThrows\<close> does the same for \<open>fs.mkdirSync\<close>.
\<close>

record lib =
  sanitize :: "string \<Rightarrow> string"
  extname :: "string \<Rightarrow> string"
  join :: "string \<Rightarrow> string \<Rightarrow> string"
  dayjs :: "string \<Rightarrow> Dayjs"
  writeThrows :: "nat \<Rightarrow> string \<Rightarrow> bool"
  mkdirThrows :: "nat \<Rightarrow> string \<Rightarrow> bool"

text \<open>
  The catalog API client, taken as a parameter. \<open>getShowInfo\<close> and \<open>getVideos\<close> are
  called once per invocation. The other three are called repeatedly and may answer the
  same request differently each time: they also take the number of collaborator calls
  made before (the length of the trace).
\<close>

record api =
  getShowInfo :: "string option \<Rightarrow> Show option"
  getVideos :: "Show \<Rightarrow> Video list option"
  getVideoById :: "nat \<Rightarrow> string \<Rightarrow> Video option"
  downloadFile :: "nat \<Rightarrow> string \<Rightarrow> string \<Rightarrow> bool"
  checkIfExists :: "nat \<Rightarrow> string \<Rightarrow> bool"

section \<open>JavaScript expressions\<close>

text \<open>Truthiness of an optional string: \<open>undefined\<close>, \<open>null\<close> and \<open>""\<close> are falsy.\<close>

definition truthy :: "string option \<Rightarrow> bool" where
  "truthy u = (case u of None \<Rightarrow> False | Some s \<Rightarrow> s \<noteq> [])"

text \<open>\<open>a || b\<close>.\<close>

definition or_else :: "string option \<Rightarrow> string option \<Rightarrow> string option" where
  "or_else a b = (if truthy a then a else b)"

text \<open>\<open>cond && x\<close> for a boolean \<open>cond\<close>: the falsy \<open>false\<close> is represented by
  \<open>None\<close>.\<close>

definition and_then :: "bool \<Rightarrow> string option \<Rightarrow> string option" where
  "and_then c x = (if c then x else None)"

definition is_digit :: "char \<Rightarrow> bool" where
  "is_digit c = (c \<in> set ''0123456789'')"

text \<open>Whether a string of nine characters matches \<open>_[0-9]{4}\.mp4\<close>.\<close>

fun bitrate_suffix :: "string \<Rightarrow> bool" where
  "bitrate_suffix [u, a, b, c, d, p, q, r, t] =
     (u = CHR ''_'' \<and> is_digit a \<and> is_digit b \<and> is_digit c \<and> is_digit d \<and>
      [p, q, r, t] = ''.mp4'')"
| "bitrate_suffix _ = False"

text \<open>\<open>url.replace(/_[0-9]{4}\.mp4$/, "_8000.mp4")\<close>: the pattern is anchored at the end
  of the string, so it can only match the last nine characters.\<close>

definition replace_8000 :: "string \<Rightarrow> string" where
  "replace_8000 url =
     (let n = length url in
      if 9 \<le> n \<and> bitrate_suffix (drop (n - 9) url)
      then take (n - 9) url @ ''_8000.mp4''
      else url)"

text \<open>\<open>s.split(",")\<close>.\<close>

fun split_comma :: "string \<Rightarrow> string list" where
  "split_comma [] = [[]]"
| "split_comma (c # cs) =
     (if c = CHR '','' then [] # split_comma cs
      else (case split_comma cs of
              [] \<Rightarrow> [[c]]
            | x # xs \<Rightarrow> (c # x) # xs))"

section \<open>dayjs comparisons\<close>

text \<open>
  dayjs defines \<open>a.isBefore(b, unit)\<close> as \<open>a.endOf(unit) < b\<close> and \<open>a.isAfter(b, unit)\<close>
  as \<open>b < a.startOf(unit)\<close>; a comparison with an invalid date is false. A day is
  taken to have 86400000 milliseconds (no change of UTC offset).
\<close>

definition ms_per_day :: int where
  "ms_per_day = 86400000"

definition startOf_day :: "int \<Rightarrow> int" where
  "startOf_day t = (t div ms_per_day) * ms_per_day"

definition endOf_day :: "int \<Rightarrow> int" where
  "endOf_day t = startOf_day t + ms_per_day - 1"

fun isBefore_day :: "Dayjs \<Rightarrow> Dayjs \<Rightarrow> bool" where
  "isBefore_day (Instant a) (Instant b) = (endOf_day a < b)"
| "isBefore_day _ _ = False"

fun isAfter_day :: "Dayjs \<Rightarrow> Dayjs \<Rightarrow> bool" where
  "isAfter_day (Instant a) (Instant b) = (b < startOf_day a)"
| "isAfter_day _ _ = False"

text \<open>The calendar day of an instant, as a day number.\<close>

definition day_of :: "int \<Rightarrow> int" where
  "day_of t = t div ms_per_day"

section \<open>State operations\<close>

definition emit :: "effect \<Rightarrow> state \<Rightarrow> state" where
  "emit e s = s\<lparr>trace := trace s @ [e]\<rparr>"

definition now :: "state \<Rightarrow> nat" where
  "now s = length (trace s)"

text \<open>The calls recorded between two states.\<close>

definition since :: "state \<Rightarrow> state \<Rightarrow> effect list" where
  "since s s' = drop (length (trace s)) (trace s')"

definition inc_downloaded :: "state \<Rightarrow> state" where
  "inc_downloaded s = s\<lparr>counts := (counts s)\<lparr>downloaded := downloaded (counts s) + 1\<rparr>\<rparr>"

definition inc_skipped :: "state \<Rightarrow> state" where
  "inc_skipped s = s\<lparr>counts := (counts s)\<lparr>skipped := skipped (counts s) + 1\<rparr>\<rparr>"

definition inc_failed :: "state \<Rightarrow> state" where
  "inc_failed s = s\<lparr>counts := (counts s)\<lparr>failed := failed (counts s) + 1\<rparr>\<rparr>"

definition zero_counts :: DownloadCounter where
  "zero_counts = \<lparr>downloaded = 0, skipped = 0, failed = 0\<rparr>"

text \<open>\<open>fs.existsSync\<close>: true for a file and for a directory.\<close>

definition existsSync :: "state \<Rightarrow> string \<Rightarrow> bool" where
  "existsSync s p = (files s p \<noteq> None \<or> p \<in> dirs s)"

text \<open>How a procedure can end other than by returning: \<open>process.exit(code)\<close>, the type
  error of calling \<open>split\<close> on an absent option, or an exception thrown by \<open>fs\<close> for a
  path, which nothing catches. A result is either such an end with the state reached
  (\<open>Inl\<close>), or the state on return (\<open>Inr\<close>).\<close>

datatype exit = Exit nat | TypeError | Uncaught string

type_synonym result = "exit \<times> state + state"

text \<open>The state a result carries, and the sequencing of two steps: the second runs only
  when the first returned.\<close>

definition final :: "result \<Rightarrow> state" where
  "final r = (case r of Inl x \<Rightarrow> snd x | Inr s \<Rightarrow> s)"

definition andThen :: "result \<Rightarrow> (state \<Rightarrow> result) \<Rightarrow> result" where
  "andThen r f = (case r of Inl x \<Rightarrow> Inl x | Inr s \<Rightarrow> f s)"

text \<open>\<open>fs.writeFileSync\<close> and \<open>fs.mkdirSync\<close>. A call that throws leaves the file system
  as it was.\<close>

definition writeFileSync :: "lib \<Rightarrow> string \<Rightarrow> content \<Rightarrow> state \<Rightarrow> result" where
  "writeFileSync L p c s =
     (if writeThrows L (now s) p then Inl (Uncaught p, emit (FsWriteFile p c False) s)
      else Inr (emit (FsWriteFile p c True) (s\<lparr>files := (files s)(p \<mapsto> c)\<rparr>)))"

definition mkdirSync :: "lib \<Rightarrow> string \<Rightarrow> state \<Rightarrow> result" where
  "mkdirSync L p s =
     (if mkdirThrows L (now s) p then Inl (Uncaught p, emit (FsMkdir p False) s)
      else Inr (emit (FsMkdir p True) (s\<lparr>dirs := insert p (dirs s)\<rparr>)))"

text \<open>
  Modelled from the spec: the class \<open>DownloadTracker\<close> (downloadtracker.js) is not part
  of the sources at hand. The spec gives \<open>isDownloaded(key)\<close> as true iff \<open>key\<close> has a
  completed marker in the ledger, and \<open>markDownloaded(key)\<close> as setting the marker and
  persisting the ledger of the tracker's directory before returning; a missing ledger
  file is an empty ledger. A tracker is identified by its directory.
\<close>

definition isDownloaded :: "string \<Rightarrow> string \<Rightarrow> state \<Rightarrow> bool" where
  "isDownloaded d key s = (key \<in> ledger s d)"

definition markDownloaded :: "string \<Rightarrow> string \<Rightarrow> state \<Rightarrow> state" where
  "markDownloaded d key s =
     emit (TrackerMarkDownloaded d key) (s\<lparr>ledger := (ledger s)(d := insert key (ledger s d))\<rparr>)"

text \<open>
  Modelled from the spec: \<open>GiantBombAPI.downloadFile\<close> (api.js) is not part of the
  sources at hand. The spec gives it as fetching the bytes of a URL to a local path and
  answering success or failure. On success the file at the path holds the bytes of the
  URL; on failure the file system is left as it was.
\<close>

definition api_downloadFile :: "api \<Rightarrow> string \<Rightarrow> string \<Rightarrow> state \<Rightarrow> bool \<times> state" where
  "api_downloadFile A url p s =
     (let ok = downloadFile A (now s) url p;
          s1 = emit (ApiDownloadFile url p ok) s
      in (ok, if ok then s1\<lparr>files := (files s1)(p \<mapsto> Fetched url)\<rparr> else s1))"

text \<open>\<open>api.checkIfExists\<close>: the answer of the API at this point of the run, recorded in the
  trace.\<close>

definition api_checkIfExists :: "api \<Rightarrow> string \<Rightarrow> state \<Rightarrow> bool \<times> state" where
  "api_checkIfExists A url s =
     (let ok = checkIfExists A (now s) url in (ok, emit (ApiCheckIfExists url ok) s))"

section \<open>The per-video procedure\<close>

text \<open>\<open>d && test(d)\<close> for an optional date bound \<open>d\<close>.\<close>

definition bound_test :: "Dayjs option \<Rightarrow> (Dayjs \<Rightarrow> bool) \<Rightarrow> bool" where
  "bound_test d test = (case d of None \<Rightarrow> False | Some x \<Rightarrow> test x)"

text \<open>The base name shared by the metadata file and the image of a video
  (the constant \<open>filename\<close> of \<open>downloadVideo\<close>).\<close>

definition filename :: "lib \<Rightarrow> Video \<Rightarrow> string" where
  "filename L video = sanitize L (publish_date video @ '' - '' @ name video)"

definition metadataPath :: "lib \<Rightarrow> string \<Rightarrow> Video \<Rightarrow> string" where
  "metadataPath L directory video = join L directory (filename L video @ ''.metadata.json'')"

definition imagePath :: "lib \<Rightarrow> string \<Rightarrow> Video \<Rightarrow> string \<Rightarrow> string" where
  "imagePath L directory video url = join L directory (filename L video @ extname L url)"

text \<open>The name of the video file (the constant \<open>videoFilename\<close>).\<close>

definition videoFilename :: "lib \<Rightarrow> Video \<Rightarrow> string \<Rightarrow> string" where
  "videoFilename L video url =
     take 10 (publish_date video) @ '' - '' @ name video @ extname L url"

text \<open>"Write metadata to JSON file".\<close>

definition writeVideoMetadata :: "lib \<Rightarrow> string \<Rightarrow> Video \<Rightarrow> state \<Rightarrow> result" where
  "writeVideoMetadata L directory video s =
     (if \<not> existsSync s (metadataPath L directory video)
      then writeFileSync L (metadataPath L directory video) (JsonVideo video)
             (emit (LoggerDebug ''Writing metadata for video'') s)
      else Inr s)"

text \<open>"Download video image".\<close>

definition downloadVideoImage :: "lib \<Rightarrow> api \<Rightarrow> string \<Rightarrow> Video \<Rightarrow> state \<Rightarrow> state" where
  "downloadVideoImage L A directory video s =
     (case image_url video of
        None \<Rightarrow> s
      | Some url \<Rightarrow>
          if url \<noteq> [] \<and> \<not> isDownloaded directory (video_id video @ ''_image'') s
          then (let s1 = emit (LoggerPosterDownload ''video image''
                                 (imagePath L directory video url)) s;
                    (success, s2) = api_downloadFile A url (imagePath L directory video url) s1
                in if success then markDownloaded directory (video_id video @ ''_image'') s2
                   else s2)
          else s)"

text \<open>"Get the correct URL for the quality": the value assigned to \<open>urlToDownload\<close>.\<close>

definition urlToDownload :: "quality \<Rightarrow> Video \<Rightarrow> string option" where
  "urlToDownload q video =
     (let hdUrl = and_then (q \<noteq> QUALITY_LOW \<and> q \<noteq> QUALITY_HIGH) (hd_url video);
          highUrl = and_then (q \<noteq> QUALITY_LOW) (high_url video)
      in or_else (or_else hdUrl highUrl) (low_url video))"

text \<open>"Check if 8k version exists": the URL that is fetched in the end. In the branch
  taken \<open>video.hd_url\<close> is the string \<open>url\<close>.\<close>

definition checkHighest :: "api \<Rightarrow> quality \<Rightarrow> Video \<Rightarrow> string \<Rightarrow> state \<Rightarrow> string \<times> state" where
  "checkHighest A q video url s =
     (if q = QUALITY_HIGHEST \<and> hd_url video = Some url
      then (let s1 = emit (LoggerDebug ''Checking if 8k bitrate video exists'') s;
                highestUrl = replace_8000 url;
                (highestUrlExists, s2) = api_checkIfExists A highestUrl s1
            in if highestUrlExists
               then (highestUrl, emit (LoggerDebug ''Found 8k bitrate video, downloading that'') s2)
               else (url, s2))
      else (url, s))"

text \<open>The download of the video file and its bookkeeping, for a truthy \<open>url\<close>.\<close>

definition fetchVideo :: "lib \<Rightarrow> api \<Rightarrow> quality \<Rightarrow> string \<Rightarrow> Video \<Rightarrow> string \<Rightarrow> state \<Rightarrow> state" where
  "fetchVideo L A q directory video url s =
     (let s1 = emit (LoggerVideoDownload (name video) (videoFilename L video url)) s;
          (url', s2) = checkHighest A q video url s1;
          (success, s3) = api_downloadFile A url' (join L directory (videoFilename L video url)) s2
      in if success then markDownloaded directory (video_id video) (inc_downloaded s3)
         else inc_failed s3)"

text \<open>The procedure from the tracker check on.\<close>

definition downloadUntracked :: "lib \<Rightarrow> api \<Rightarrow> quality \<Rightarrow> string \<Rightarrow> Video \<Rightarrow> state \<Rightarrow> state" where
  "downloadUntracked L A q directory video s =
     (if isDownloaded directory (video_id video) s
      then emit (LoggerVideoSkipDownloaded (name video)) (inc_skipped s)
      else (case urlToDownload q video of
              None \<Rightarrow> emit (LoggerVideoSkipNoURL (name video) q) (inc_skipped s)
            | Some url \<Rightarrow>
                if url = [] then emit (LoggerVideoSkipNoURL (name video) q) (inc_skipped s)
                else fetchVideo L A q directory video url s))"

text \<open>The procedure after the date filter: metadata, image, then the video itself. When
  the metadata write throws, nothing after it runs.\<close>

definition processVideo :: "lib \<Rightarrow> api \<Rightarrow> quality \<Rightarrow> string \<Rightarrow> Video \<Rightarrow> state \<Rightarrow> result" where
  "processVideo L A q directory video s =
     andThen (writeVideoMetadata L directory video s)
       (\<lambda>s1. Inr (downloadUntracked L A q directory video
                     (downloadVideoImage L A directory video s1)))"

text \<open>\<open>downloadVideo(video, tracker, counts, { fromDate, toDate })\<close>. The tracker is the
  one of \<open>directory\<close>; the counter object is the one in the state.\<close>

definition downloadVideo ::
  "lib \<Rightarrow> api \<Rightarrow> quality \<Rightarrow> string \<Rightarrow> Video \<Rightarrow> Dayjs option \<Rightarrow> Dayjs option \<Rightarrow> state \<Rightarrow> result" where
  "downloadVideo L A q directory video fromDate toDate s =
     (let publishDate = dayjs L (publish_date video) in
      if bound_test fromDate (isBefore_day publishDate)
      then Inr (emit (LoggerEpisodeSkipBeforeDate (name video) publishDate fromDate) (inc_skipped s))
      else if bound_test toDate (isAfter_day publishDate)
      then Inr (emit (LoggerEpisodeSkipAfterDate (name video) publishDate toDate) (inc_skipped s))
      else processVideo L A q directory video s)"

section \<open>Show mode and identifier mode\<close>

text \<open>\<open>for (const video of videos) await downloadVideo(video, tracker, counts, { fromDate, toDate })\<close>.\<close>

fun forVideos ::
  "lib \<Rightarrow> api \<Rightarrow> quality \<Rightarrow> string \<Rightarrow> Dayjs option \<Rightarrow> Dayjs option \<Rightarrow> Video list \<Rightarrow> state \<Rightarrow> result" where
  "forVideos L A q directory fromDate toDate [] s = Inr s"
| "forVideos L A q directory fromDate toDate (video # videos) s =
     andThen (downloadVideo L A q directory video fromDate toDate s)
       (forVideos L A q directory fromDate toDate videos)"

text \<open>A date option of the command line: parsed when the option is truthy.\<close>

definition parseDate :: "lib \<Rightarrow> string option \<Rightarrow> Dayjs option" where
  "parseDate L d = (case d of None \<Rightarrow> None | Some x \<Rightarrow> if x = [] then None else Some (dayjs L x))"

text \<open>"Download the show image if available" and "Download the show logo if available":
  the same steps for the keys \<open>show_image\<close> and \<open>show_logo\<close> and the file stems \<open>image\<close>
  and \<open>logo\<close>.\<close>

definition downloadPoster ::
  "lib \<Rightarrow> api \<Rightarrow> string \<Rightarrow> string option \<Rightarrow> string \<Rightarrow> string \<Rightarrow> string \<Rightarrow> state \<Rightarrow> state" where
  "downloadPoster L A directory original_url stem label key s =
     (case original_url of
        None \<Rightarrow> s
      | Some url \<Rightarrow>
          if url = [] then s
          else (let imageExtension = extname L url;
                    imageTargetPath = join L directory (stem @ imageExtension)
                in if \<not> isDownloaded directory key s
                   then (let s1 = emit (LoggerPosterDownload label (stem @ imageExtension)) s;
                             (success, s2) = api_downloadFile A url imageTargetPath s1
                         in if success then markDownloaded directory key s2 else s2)
                   else s))"

text \<open>"Write metadata to JSON file" of \<open>downloadShow\<close>.\<close>

definition writeShowMetadata :: "lib \<Rightarrow> string \<Rightarrow> Show \<Rightarrow> state \<Rightarrow> result" where
  "writeShowMetadata L directory sh s =
     (if \<not> existsSync s (join L directory ''metadata.json'')
      then writeFileSync L (join L directory ''metadata.json'') (JsonShow sh)
             (emit (LoggerDebug ''Writing metadata for show'') s)
      else Inr s)"

text \<open>"Create directory for the show if it does not exist yet".\<close>

definition createDirectory :: "lib \<Rightarrow> string \<Rightarrow> state \<Rightarrow> result" where
  "createDirectory L directory s =
     (if \<not> existsSync s directory then mkdirSync L directory s else Inr s)"

text \<open>The show image, then the show logo.\<close>

definition downloadPosters :: "lib \<Rightarrow> api \<Rightarrow> string \<Rightarrow> Show \<Rightarrow> state \<Rightarrow> state" where
  "downloadPosters L A directory sh s =
     downloadPoster L A directory (show_logo_url sh) ''logo'' ''show logo'' ''show_logo''
       (downloadPoster L A directory (show_image_url sh) ''image'' ''show image'' ''show_image'' s)"

text \<open>The directory of a show: \<open>path.join(directory, sanitize(show.title, ...))\<close>.\<close>

definition showDirectory :: "lib \<Rightarrow> string \<Rightarrow> Show \<Rightarrow> string" where
  "showDirectory L directory sh = join L directory (sanitize L (title sh))"

text \<open>The part of \<open>downloadShow\<close> between the show lookup and the video list: directory,
  metadata, image and logo.\<close>

definition prepareShow :: "lib \<Rightarrow> api \<Rightarrow> string \<Rightarrow> Show \<Rightarrow> state \<Rightarrow> result" where
  "prepareShow L A directory sh s =
     andThen (createDirectory L directory s)
       (\<lambda>s1. andThen (writeShowMetadata L directory sh s1)
          (\<lambda>s2. Inr (downloadPosters L A directory sh s2)))"

text \<open>The rest of \<open>downloadShow\<close>, from the fetch of the video list on.\<close>

definition downloadShowVideos ::
  "lib \<Rightarrow> api \<Rightarrow> program \<Rightarrow> string \<Rightarrow> Show \<Rightarrow> state \<Rightarrow> result" where
  "downloadShowVideos L A P directory sh s2 =
     (let s3 = emit (ApiGetVideos sh) s2
      in case getVideos A sh of
           None \<Rightarrow> Inl (Exit 1, s3)
         | Some videos \<Rightarrow>
             andThen (forVideos L A (opt_quality P) (showDirectory L directory sh)
                        (parseDate L (opt_from_date P)) (parseDate L (opt_to_date P))
                        videos (s3\<lparr>counts := zero_counts\<rparr>))
               (\<lambda>s4. Inr (emit (LoggerShowComplete (title sh) (counts s4)) s4)))"

text \<open>\<open>downloadShow\<close>. \<open>directory\<close> is the value of the global variable of that name on
  entry (the resolved \<open>--dir\<close>). \<open>process.exit(1)\<close> returns \<open>Inl\<close> of the exit code and
  the state reached.\<close>

definition downloadShow :: "lib \<Rightarrow> api \<Rightarrow> program \<Rightarrow> string \<Rightarrow> state \<Rightarrow> result" where
  "downloadShow L A P directory s =
     (let s1 = emit (ApiGetShowInfo (opt_show P)) s
      in case getShowInfo A (opt_show P) of
           None \<Rightarrow> Inl (Exit 1, s1)
         | Some sh \<Rightarrow>
             andThen (prepareShow L A (showDirectory L directory sh) sh s1)
               (downloadShowVideos L A P directory sh))"

text \<open>The loop of \<open>downloadVideosById\<close>.\<close>

fun forVideoIds :: "lib \<Rightarrow> api \<Rightarrow> quality \<Rightarrow> string \<Rightarrow> string list \<Rightarrow> state \<Rightarrow> result" where
  "forVideoIds L A q directory [] s = Inr s"
| "forVideoIds L A q directory (videoId # videoIds) s =
     (let s1 = emit (ApiGetVideoById videoId) s
      in case getVideoById A (now s) videoId of
           None \<Rightarrow> forVideoIds L A q directory videoIds (inc_failed s1)
         | Some video \<Rightarrow>
             andThen (downloadVideo L A q directory video None None s1)
               (forVideoIds L A q directory videoIds))"

text \<open>\<open>downloadVideosById\<close>. Splitting an absent \<open>--video_id\<close> is a type error; \<open>main\<close>
  never calls it so.\<close>

definition downloadVideosById :: "lib \<Rightarrow> api \<Rightarrow> program \<Rightarrow> string \<Rightarrow> state \<Rightarrow> result" where
  "downloadVideosById L A P directory s =
     (case opt_video_id P of
        None \<Rightarrow> Inl (TypeError, s)
      | Some ids \<Rightarrow>
          (let videoIds = split_comma ids
           in andThen (forVideoIds L A (opt_quality P) directory videoIds
                         (s\<lparr>counts := zero_counts\<rparr>))
                (\<lambda>s1. Inr (emit (LoggerVideosComplete (length videoIds) (counts s1)) s1))))"

text \<open>The dispatch of \<open>main\<close>, after \<open>initProgram\<close>.\<close>

definition main :: "lib \<Rightarrow> api \<Rightarrow> program \<Rightarrow> string \<Rightarrow> state \<Rightarrow> result" where
  "main L A P directory s =
     (if truthy (opt_show P) then downloadShow L A P directory s
      else if truthy (opt_video_id P) then downloadVideosById L A P directory s
      else Inr s)"

section \<open>Traces of the steps\<close>

text \<open>
  What each step of the per-video procedure adds to the trace, written out as lists.
  The lemmas below show that the steps produce exactly these.
\<close>

definition metadataEvents :: "lib \<Rightarrow> string \<Rightarrow> Video \<Rightarrow> state \<Rightarrow> effect list" where
  "metadataEvents L d v s =
     (if existsSync s (metadataPath L d v) then []
      else [LoggerDebug ''Writing metadata for video'',
            FsWriteFile (metadataPath L d v) (JsonVideo v)
              (\<not> writeThrows L (Suc (now s)) (metadataPath L d v))])"

text \<open>The state the metadata step leaves, whether it returned or threw.\<close>

definition afterMetadata :: "lib \<Rightarrow> string \<Rightarrow> Video \<Rightarrow> state \<Rightarrow> state" where
  "afterMetadata L d v s = final (writeVideoMetadata L d v s)"

text \<open>Whether the metadata step, started in \<open>s\<close>, ends the procedure with an exception: the
  file is absent and the write of it throws.\<close>

definition metadataThrows :: "lib \<Rightarrow> string \<Rightarrow> Video \<Rightarrow> state \<Rightarrow> bool" where
  "metadataThrows L d v s =
     (\<not> existsSync s (metadataPath L d v) \<and>
      writeThrows L (Suc (now s)) (metadataPath L d v))"

definition imageEvents :: "lib \<Rightarrow> api \<Rightarrow> string \<Rightarrow> Video \<Rightarrow> state \<Rightarrow> effect list" where
  "imageEvents L A d v s =
     (case image_url v of
        None \<Rightarrow> []
      | Some url \<Rightarrow>
          if url \<noteq> [] \<and> video_id v @ ''_image'' \<notin> ledger s d
          then [LoggerPosterDownload ''video image'' (imagePath L d v url),
                ApiDownloadFile url (imagePath L d v url)
                  (downloadFile A (Suc (now s)) url (imagePath L d v url))] @
               (if downloadFile A (Suc (now s)) url (imagePath L d v url)
                then [TrackerMarkDownloaded d (video_id v @ ''_image'')] else [])
          else [])"

definition probeEvents :: "api \<Rightarrow> quality \<Rightarrow> Video \<Rightarrow> string \<Rightarrow> state \<Rightarrow> effect list" where
  "probeEvents A q v u s =
     (if q = QUALITY_HIGHEST \<and> hd_url v = Some u
      then [LoggerDebug ''Checking if 8k bitrate video exists'',
            ApiCheckIfExists (replace_8000 u) (checkIfExists A (Suc (now s)) (replace_8000 u))] @
           (if checkIfExists A (Suc (now s)) (replace_8000 u)
            then [LoggerDebug ''Found 8k bitrate video, downloading that''] else [])
      else [])"

text \<open>Whether the per-video procedure, started in \<open>s\<close>, ends with an exception: the video
  passes the date filter and the metadata step throws.\<close>

definition videoThrows ::
  "lib \<Rightarrow> string \<Rightarrow> Video \<Rightarrow> Dayjs option \<Rightarrow> Dayjs option \<Rightarrow> state \<Rightarrow> bool" where
  "videoThrows L d v f t s =
     (\<not> bound_test f (isBefore_day (dayjs L (publish_date v))) \<and>
      \<not> bound_test t (isAfter_day (dayjs L (publish_date v))) \<and>
      metadataThrows L d v s)"

text \<open>The URL handed to the download of the video file, when the probe runs in \<open>s\<close>.\<close>

definition fetchedUrl :: "api \<Rightarrow> quality \<Rightarrow> Video \<Rightarrow> string \<Rightarrow> state \<Rightarrow> string" where
  "fetchedUrl A q v u s =
     (if q = QUALITY_HIGHEST \<and> hd_url v = Some u \<and> checkIfExists A (Suc (now s)) (replace_8000 u)
      then replace_8000 u else u)"

text \<open>The state in which the probe runs: the download has been announced.\<close>

definition announced :: "lib \<Rightarrow> Video \<Rightarrow> string \<Rightarrow> state \<Rightarrow> state" where
  "announced L v u s = emit (LoggerVideoDownload (name v) (videoFilename L v u)) s"

text \<open>Whether the download of the video file succeeds, when \<open>fetchVideo\<close> starts in \<open>s\<close>.\<close>

definition fetchSuccess :: "lib \<Rightarrow> api \<Rightarrow> quality \<Rightarrow> string \<Rightarrow> Video \<Rightarrow> string \<Rightarrow> state \<Rightarrow> bool" where
  "fetchSuccess L A q d v u s =
     downloadFile A (Suc (now s) + length (probeEvents A q v u (announced L v u s)))
       (fetchedUrl A q v u (announced L v u s))
       (join L d (videoFilename L v u))"

definition fetchEvents :: "lib \<Rightarrow> api \<Rightarrow> quality \<Rightarrow> string \<Rightarrow> Video \<Rightarrow> string \<Rightarrow> state \<Rightarrow> effect list" where
  "fetchEvents L A q d v u s =
     LoggerVideoDownload (name v) (videoFilename L v u) #
     probeEvents A q v u (announced L v u s) @
     ApiDownloadFile (fetchedUrl A q v u (announced L v u s))
       (join L d (videoFilename L v u)) (fetchSuccess L A q d v u s) #
     (if fetchSuccess L A q d v u s then [TrackerMarkDownloaded d (video_id v)] else [])"

text \<open>One counter grew by one and the other two kept their values.\<close>

definition one_more :: "DownloadCounter \<Rightarrow> DownloadCounter \<Rightarrow> bool" where
  "one_more c c' =
     (c' = c\<lparr>downloaded := downloaded c + 1\<rparr> \<or> c' = c\<lparr>skipped := skipped c + 1\<rparr> \<or>
      c' = c\<lparr>failed := failed c + 1\<rparr>)"

text \<open>The part of a trace from the announcement of the video download on.\<close>

fun isVideoDownload :: "effect \<Rightarrow> bool" where
  "isVideoDownload (LoggerVideoDownload n f) = True"
| "isVideoDownload _ = False"

definition fromVideoDownload :: "effect list \<Rightarrow> effect list" where
  "fromVideoDownload es = dropWhile (\<lambda>e. \<not> isVideoDownload e) es"

text \<open>The number of collaborator calls in the trace of \<open>s'\<close> before the announcement of the
  video download made since \<open>s\<close>: the time at which the announcement was made.\<close>

definition announcedAt :: "state \<Rightarrow> state \<Rightarrow> nat" where
  "announcedAt s s' = length (trace s') - length (fromVideoDownload (since s s'))"

text \<open>The sum of the three counters.\<close>

definition total :: "DownloadCounter \<Rightarrow> nat" where
  "total c = downloaded c + skipped c + failed c"

text \<open>A video that the per-video procedure will skip in state \<open>s\<close>: it is out of the date
  range, or marked completed, or has no URL for the quality.\<close>

definition settled :: "lib \<Rightarrow> quality \<Rightarrow> string \<Rightarrow> Dayjs option \<Rightarrow> Dayjs option \<Rightarrow> state \<Rightarrow> Video \<Rightarrow> bool" where
  "settled L q d f t s v =
     (bound_test f (isBefore_day (dayjs L (publish_date v))) \<or>
      bound_test t (isAfter_day (dayjs L (publish_date v))) \<or>
      video_id v \<in> ledger s d \<or> \<not> truthy (urlToDownload q v))"

text \<open>A video whose metadata step has nothing to write in state \<open>s\<close>: it is out of the
  date range, or its metadata file exists.\<close>

definition documented :: "lib \<Rightarrow> string \<Rightarrow> Dayjs option \<Rightarrow> Dayjs option \<Rightarrow> state \<Rightarrow> Video \<Rightarrow> bool" where
  "documented L d f t s v =
     (bound_test f (isBefore_day (dayjs L (publish_date v))) \<or>
      bound_test t (isAfter_day (dayjs L (publish_date v))) \<or>
      existsSync s (metadataPath L d v))"

text \<open>A show-mode invocation that follows another one on the state the first one left.\<close>

definition thenShow :: "lib \<Rightarrow> api \<Rightarrow> program \<Rightarrow> string \<Rightarrow> result \<Rightarrow> result" where
  "thenShow L A P dir r = andThen r (downloadShow L A P dir)"

text \<open>Reading a trace: the identifiers looked up, in order; the reports of a skip by the
  date filter; and whether the trace of one state continues the trace of another.\<close>

fun lookups :: "effect list \<Rightarrow> string list" where
  "lookups [] = []"
| "lookups (ApiGetVideoById i # es) = i # lookups es"
| "lookups (e # es) = lookups es"

fun isDateSkip :: "effect \<Rightarrow> bool" where
  "isDateSkip (LoggerEpisodeSkipBeforeDate n p b) = True"
| "isDateSkip (LoggerEpisodeSkipAfterDate n p b) = True"
| "isDateSkip _ = False"

definition extends :: "state \<Rightarrow> state \<Rightarrow> bool" where
  "extends s s' = (take (length (trace s)) (trace s') = trace s)"

text \<open>
  The write discipline between a state and a later one: the trace was continued; every
  path that existed still exists and was not the target of \<open>fs.writeFileSync\<close> (whether
  the call returned or threw); and it holds what it held unless a successful download
  was aimed at it.
\<close>

definition guarded :: "state \<Rightarrow> state \<Rightarrow> bool" where
  "guarded s s' =
     (extends s s' \<and>
      (\<forall>p. existsSync s p \<longrightarrow>
         existsSync s' p \<and>
         (\<forall>c b. FsWriteFile p c b \<notin> set (since s s')) \<and>
         ((\<forall>u. ApiDownloadFile u p True \<notin> set (since s s')) \<longrightarrow> files s' p = files s p)))"

text \<open>The date filter in the words of its description: a publish date lies strictly before
  (after) a bound when both are valid dates and its calendar day is the smaller (larger)
  one. An absent bound excludes nothing.\<close>

fun strictlyBefore :: "Dayjs \<Rightarrow> Dayjs option \<Rightarrow> bool" where
  "strictlyBefore (Instant a) (Some (Instant b)) = (day_of a < day_of b)"
| "strictlyBefore _ _ = False"

fun strictlyAfter :: "Dayjs \<Rightarrow> Dayjs option \<Rightarrow> bool" where
  "strictlyAfter (Instant a) (Some (Instant b)) = (day_of b < day_of a)"
| "strictlyAfter _ _ = False"

section \<open>A concrete environment\<close>

text \<open>
  Small instances of the libraries, of the API and of the inputs, on which the procedures
  are evaluated in the examples below. \<open>ex_sanitize\<close> replaces the characters that
  sanitize-filename treats as illegal in a path by \<open>_\<close> and truncates the result to 255
  characters; \<open>ex_dayjs\<close> knows three days of May 2022 (as day numbers since 1970-01-01)
  and reads a time of day, when the string has one, as 13:00. The file system of the
  examples refuses a file or directory whose name (the part of the path after the last
  \<open>/\<close>) is longer than 255 characters, as the common file systems do, and nothing else.
\<close>

definition ex_sanitize :: "string \<Rightarrow> string" where
  "ex_sanitize x = take 255 (map (\<lambda>c. if c \<in> set ''/?<>:*|'' then CHR ''_'' else c) x)"

definition ex_basename :: "string \<Rightarrow> string" where
  "ex_basename p = rev (takeWhile (\<lambda>c. c \<noteq> CHR ''/'') (rev p))"

definition ex_nameTooLong :: "nat \<Rightarrow> string \<Rightarrow> bool" where
  "ex_nameTooLong n p = (255 < length (ex_basename p))"

definition ex_extname :: "string \<Rightarrow> string" where
  "ex_extname x =
     (if CHR ''.'' \<in> set x then CHR ''.'' # rev (takeWhile (\<lambda>c. c \<noteq> CHR ''.'') (rev x)) else [])"

definition ex_join :: "string \<Rightarrow> string \<Rightarrow> string" where
  "ex_join d n = d @ ''/'' @ n"

definition ex_dayjs :: "string \<Rightarrow> Dayjs" where
  "ex_dayjs x =
     (let time = (if 10 < length x then 46800000 else 0) in
      if take 10 x = ''2022-05-16'' then Instant (19128 * 86400000 + time)
      else if take 10 x = ''2022-05-17'' then Instant (19129 * 86400000 + time)
      else if take 10 x = ''2022-05-18'' then Instant (19130 * 86400000 + time)
      else Invalid)"

definition ex_lib :: lib where
  "ex_lib =
     \<lparr>sanitize = ex_sanitize, extname = ex_extname, join = ex_join, dayjs = ex_dayjs,
      writeThrows = ex_nameTooLong, mkdirThrows = ex_nameTooLong\<rparr>"

definition ex_video :: Video where
  "ex_video =
     \<lparr>video_id = ''4242'', name = ''Quick Look: A/B'', publish_date = ''2022-05-17 13:00:00'',
      image_url = Some ''https://img.example/qa.jpg'',
      low_url = Some ''https://v.example/foo_1800.mp4'',
      high_url = Some ''https://v.example/foo_2500.mp4'',
      hd_url = Some ''https://v.example/foo_3500.mp4''\<rparr>"

definition ex_show :: Show where
  "ex_show =
     \<lparr>title = ''Quick Looks'', show_image_url = Some ''https://img.example/ql.png'',
      show_logo_url = None\<rparr>"

text \<open>An API whose downloads all succeed or all fail, and whose probes all succeed.\<close>

definition ex_api :: "bool \<Rightarrow> api" where
  "ex_api ok =
     \<lparr>getShowInfo = (\<lambda>x. if x = Some ''Quick Looks'' then Some ex_show else None),
      getVideos = (\<lambda>sh. Some [ex_video]),
      getVideoById = (\<lambda>n i. if i = ''4242'' then Some ex_video else None),
      downloadFile = (\<lambda>n u p. ok),
      checkIfExists = (\<lambda>n u. True)\<rparr>"

definition ex_state :: state where
  "ex_state =
     \<lparr>files = Map.empty, dirs = {''/dl''}, ledger = (\<lambda>d. {}), counts = zero_counts, trace = []\<rparr>"

definition ex_program :: program where
  "ex_program =
     \<lparr>opt_show = Some ''Quick Looks'', opt_video_id = None, opt_quality = QUALITY_HIGHEST,
      opt_from_date = None, opt_to_date = None\<rparr>"

text \<open>The example state after an earlier run has marked the example video completed.\<close>

definition ex_tracked :: state where
  "ex_tracked = ex_state\<lparr>ledger := (\<lambda>d. if d = ''/dl'' then {''4242''} else {})\<rparr>"

text \<open>An identifier-mode command line with one known and one unknown identifier, and with
  a \<open>--from_date\<close> after the publish date of the example video.\<close>

definition ex_ids_program :: program where
  "ex_ids_program =
     \<lparr>opt_show = None, opt_video_id = Some ''4242,9999'', opt_quality = QUALITY_LOW,
      opt_from_date = Some ''2022-05-18'', opt_to_date = None\<rparr>"

text \<open>The example state with a metadata file of the example video from an earlier run,
  when the catalog listed no hd URL for it.\<close>

definition ex_old_metadata :: state where
  "ex_old_metadata =
     ex_state\<lparr>files :=
       [''/dl/2022-05-17 13_00_00 - Quick Look_ A_B.metadata.json'' \<mapsto>
          JsonVideo (ex_video\<lparr>hd_url := None\<rparr>)]\<rparr>"

text \<open>The example video under a title of 250 characters.\<close>

definition ex_long_video :: Video where
  "ex_long_video = ex_video\<lparr>name := replicate 250 (CHR ''a'')\<rparr>"

text \<open>An API with no 8k version of any video, its downloads succeeding.\<close>

definition ex_api_no8k :: api where
  "ex_api_no8k = (ex_api True)\<lparr>checkIfExists := (\<lambda>n u. False)\<rparr>"

section \<open>Lemmas about the steps\<close>

lemmas state_ops = emit_def now_def inc_downloaded_def inc_skipped_def inc_failed_def
  existsSync_def writeFileSync_def mkdirSync_def isDownloaded_def markDownloaded_def
  api_downloadFile_def api_checkIfExists_def

lemma since_ext: "trace s' = trace s @ xs \<Longrightarrow> since s s' = xs"
  by (simp add: since_def)

lemma since_self: "since s s = []"
  by (simp add: since_def)

lemma final_simps [simp]: "final (Inr s) = s" "final (Inl (e, s)) = s"
  by (simp_all add: final_def)

lemma andThen_simps [simp]: "andThen (Inr s) f = f s" "andThen (Inl x) f = Inl x"
  by (simp_all add: andThen_def)

lemma result_cases:
  obtains (returned) s' where "r = Inr s'" | (ended) e s' where "r = Inl (e, s')"
  by (cases r) auto

lemma writeVideoMetadata_result:
  "writeVideoMetadata L d v s =
     (if metadataThrows L d v s
      then Inl (Uncaught (metadataPath L d v), afterMetadata L d v s)
      else Inr (afterMetadata L d v s))"
  by (simp add: afterMetadata_def writeVideoMetadata_def metadataThrows_def state_ops)

lemma trace_afterMetadata:
  "trace (afterMetadata L d v s) = trace s @ metadataEvents L d v s"
  by (simp add: afterMetadata_def writeVideoMetadata_def metadataEvents_def state_ops)

lemma ledger_afterMetadata: "ledger (afterMetadata L d v s) = ledger s"
  by (simp add: afterMetadata_def writeVideoMetadata_def state_ops)

lemma counts_afterMetadata: "counts (afterMetadata L d v s) = counts s"
  by (simp add: afterMetadata_def writeVideoMetadata_def state_ops)

lemma dirs_afterMetadata: "dirs (afterMetadata L d v s) = dirs s"
  by (simp add: afterMetadata_def writeVideoMetadata_def state_ops)

lemma files_afterMetadata:
  "files (afterMetadata L d v s) =
     (if existsSync s (metadataPath L d v) \<or> metadataThrows L d v s then files s
      else (files s)(metadataPath L d v \<mapsto> JsonVideo v))"
  by (auto simp add: afterMetadata_def writeVideoMetadata_def metadataThrows_def state_ops)

lemma trace_downloadVideoImage:
  "trace (downloadVideoImage L A d v s) = trace s @ imageEvents L A d v s"
  by (simp add: downloadVideoImage_def imageEvents_def state_ops Let_def split_beta
           split: option.splits)

lemma counts_downloadVideoImage: "counts (downloadVideoImage L A d v s) = counts s"
  by (simp add: downloadVideoImage_def state_ops Let_def split_beta split: option.splits)

lemma dirs_downloadVideoImage: "dirs (downloadVideoImage L A d v s) = dirs s"
  by (simp add: downloadVideoImage_def state_ops Let_def split_beta split: option.splits)

lemma ledger_downloadVideoImage:
  "ledger (downloadVideoImage L A d v s) = ledger s \<or>
   ledger (downloadVideoImage L A d v s) =
     (ledger s)(d := insert (video_id v @ ''_image'') (ledger s d))"
  by (simp add: downloadVideoImage_def state_ops Let_def split_beta split: option.splits)

lemma tracked_downloadVideoImage:
  "(video_id v \<in> ledger (downloadVideoImage L A d v s) d) = (video_id v \<in> ledger s d)"
  using ledger_downloadVideoImage[of L A d v s] by auto


lemma trace_checkHighest:
  "trace (snd (checkHighest A q v u s)) = trace s @ probeEvents A q v u s"
  by (simp add: checkHighest_def probeEvents_def state_ops Let_def split_beta)

lemma fst_checkHighest: "fst (checkHighest A q v u s) = fetchedUrl A q v u s"
  by (simp add: checkHighest_def fetchedUrl_def state_ops Let_def split_beta)

lemma frame_checkHighest:
  "counts (snd (checkHighest A q v u s)) = counts s"
  "ledger (snd (checkHighest A q v u s)) = ledger s"
  "files (snd (checkHighest A q v u s)) = files s"
  "dirs (snd (checkHighest A q v u s)) = dirs s"
  by (simp_all add: checkHighest_def state_ops Let_def split_beta)

lemma trace_fetchVideo:
  "trace (fetchVideo L A q d v u s) = trace s @ fetchEvents L A q d v u s"
  by (simp add: fetchVideo_def fetchEvents_def fetchSuccess_def announced_def Let_def split_beta
        trace_checkHighest fst_checkHighest frame_checkHighest
        emit_def now_def inc_downloaded_def inc_failed_def markDownloaded_def api_downloadFile_def)

lemma counts_fetchVideo:
  "counts (fetchVideo L A q d v u s) =
     (if fetchSuccess L A q d v u s
      then (counts s)\<lparr>downloaded := downloaded (counts s) + 1\<rparr>
      else (counts s)\<lparr>failed := failed (counts s) + 1\<rparr>)"
  by (simp add: fetchVideo_def fetchSuccess_def announced_def Let_def split_beta
        trace_checkHighest fst_checkHighest frame_checkHighest
        emit_def now_def inc_downloaded_def inc_failed_def markDownloaded_def api_downloadFile_def)

lemma ledger_fetchVideo:
  "ledger (fetchVideo L A q d v u s) =
     (if fetchSuccess L A q d v u s
      then (ledger s)(d := insert (video_id v) (ledger s d))
      else ledger s)"
  by (simp add: fetchVideo_def fetchSuccess_def announced_def Let_def split_beta
        trace_checkHighest fst_checkHighest frame_checkHighest
        emit_def now_def inc_downloaded_def inc_failed_def markDownloaded_def api_downloadFile_def)

lemma dirs_fetchVideo: "dirs (fetchVideo L A q d v u s) = dirs s"
  by (simp add: fetchVideo_def Let_def split_beta frame_checkHighest
        emit_def now_def inc_downloaded_def inc_failed_def markDownloaded_def api_downloadFile_def)

text \<open>The six ways through the per-video procedure.\<close>

lemma downloadVideo_cases:
  fixes L A q d v f t s
  defines "s2 \<equiv> downloadVideoImage L A d v (afterMetadata L d v s)"
  obtains
    (before) "bound_test f (isBefore_day (dayjs L (publish_date v)))"
      "downloadVideo L A q d v f t s =
         Inr (emit (LoggerEpisodeSkipBeforeDate (name v) (dayjs L (publish_date v)) f) (inc_skipped s))"
  | (after) "\<not> bound_test f (isBefore_day (dayjs L (publish_date v)))"
      "bound_test t (isAfter_day (dayjs L (publish_date v)))"
      "downloadVideo L A q d v f t s =
         Inr (emit (LoggerEpisodeSkipAfterDate (name v) (dayjs L (publish_date v)) t) (inc_skipped s))"
  | (threw) "\<not> bound_test f (isBefore_day (dayjs L (publish_date v)))"
      "\<not> bound_test t (isAfter_day (dayjs L (publish_date v)))"
      "metadataThrows L d v s"
      "downloadVideo L A q d v f t s =
         Inl (Uncaught (metadataPath L d v), afterMetadata L d v s)"
  | (tracked) "\<not> bound_test f (isBefore_day (dayjs L (publish_date v)))"
      "\<not> bound_test t (isAfter_day (dayjs L (publish_date v)))"
      "\<not> metadataThrows L d v s"
      "video_id v \<in> ledger s d"
      "downloadVideo L A q d v f t s =
         Inr (emit (LoggerVideoSkipDownloaded (name v)) (inc_skipped s2))"
  | (no_url) "\<not> bound_test f (isBefore_day (dayjs L (publish_date v)))"
      "\<not> bound_test t (isAfter_day (dayjs L (publish_date v)))"
      "\<not> metadataThrows L d v s"
      "video_id v \<notin> ledger s d" "\<not> truthy (urlToDownload q v)"
      "downloadVideo L A q d v f t s =
         Inr (emit (LoggerVideoSkipNoURL (name v) q) (inc_skipped s2))"
  | (fetch) u where "\<not> bound_test f (isBefore_day (dayjs L (publish_date v)))"
      "\<not> bound_test t (isAfter_day (dayjs L (publish_date v)))"
      "\<not> metadataThrows L d v s"
      "video_id v \<notin> ledger s d" "urlToDownload q v = Some u" "u \<noteq> []"
      "downloadVideo L A q d v f t s = Inr (fetchVideo L A q d v u s2)"
proof -
  have tr: "(video_id v \<in> ledger s2 d) = (video_id v \<in> ledger s d)"
    by (simp add: s2_def tracked_downloadVideoImage ledger_afterMetadata)
  show ?thesis
  proof (cases "bound_test f (isBefore_day (dayjs L (publish_date v)))")
    case True
    then show ?thesis using before by (simp add: downloadVideo_def)
  next
    case nb: False
    show ?thesis
    proof (cases "bound_test t (isAfter_day (dayjs L (publish_date v)))")
      case True
      then show ?thesis using nb after by (simp add: downloadVideo_def)
    next
      case na: False
      show ?thesis
      proof (cases "metadataThrows L d v s")
        case True
        then show ?thesis using nb na threw
          by (simp add: downloadVideo_def processVideo_def writeVideoMetadata_result)
      next
        case nm: False
        have dv: "downloadVideo L A q d v f t s = Inr (downloadUntracked L A q d v s2)"
          using nb na nm
          by (simp add: downloadVideo_def processVideo_def writeVideoMetadata_result s2_def)
        show ?thesis
        proof (cases "video_id v \<in> ledger s d")
          case True
          then show ?thesis using nb na nm dv tr tracked
            by (simp add: downloadUntracked_def isDownloaded_def)
        next
          case nt: False
          show ?thesis
          proof (cases "truthy (urlToDownload q v)")
            case False
            then show ?thesis using nb na nm nt dv tr no_url
              by (simp add: downloadUntracked_def isDownloaded_def truthy_def split: option.splits)
          next
            case True
            then obtain u where u: "urlToDownload q v = Some u" "u \<noteq> []"
              by (auto simp: truthy_def split: option.splits)
            then show ?thesis using nb na nm nt dv tr fetch[of u]
              by (simp add: downloadUntracked_def isDownloaded_def)
          qed
        qed
      qed
    qed
  qed
qed

lemma downloadVideo_result:
  "downloadVideo L A q d v f t s =
     (if videoThrows L d v f t s
      then Inl (Uncaught (metadataPath L d v), final (downloadVideo L A q d v f t s))
      else Inr (final (downloadVideo L A q d v f t s)))"
  by (cases rule: downloadVideo_cases[where L=L and A=A and q=q and d=d and v=v and f=f and t=t and s=s])
     (simp_all add: videoThrows_def)

lemma since_downloadVideo:
  "since s (final (downloadVideo L A q d v f t s)) =
     (if bound_test f (isBefore_day (dayjs L (publish_date v)))
      then [LoggerEpisodeSkipBeforeDate (name v) (dayjs L (publish_date v)) f]
      else if bound_test t (isAfter_day (dayjs L (publish_date v)))
      then [LoggerEpisodeSkipAfterDate (name v) (dayjs L (publish_date v)) t]
      else metadataEvents L d v s @
           (if metadataThrows L d v s then []
            else imageEvents L A d v (afterMetadata L d v s) @
              (if video_id v \<in> ledger s d then [LoggerVideoSkipDownloaded (name v)]
               else if \<not> truthy (urlToDownload q v) then [LoggerVideoSkipNoURL (name v) q]
               else fetchEvents L A q d v (the (urlToDownload q v))
                      (downloadVideoImage L A d v (afterMetadata L d v s)))))"
proof (cases rule: downloadVideo_cases[where L=L and A=A and q=q and d=d and v=v and f=f and t=t and s=s])
  case before
  then show ?thesis by (simp add: since_def emit_def inc_skipped_def)
next
  case after
  then show ?thesis by (simp add: since_def emit_def inc_skipped_def)
next
  case threw
  then show ?thesis by (simp add: since_def trace_afterMetadata)
next
  case tracked
  then show ?thesis
    by (simp add: since_def emit_def inc_skipped_def trace_downloadVideoImage trace_afterMetadata)
next
  case no_url
  then show ?thesis
    by (simp add: since_def emit_def inc_skipped_def trace_downloadVideoImage trace_afterMetadata)
next
  case (fetch u)
  then show ?thesis
    by (simp add: since_def trace_fetchVideo trace_downloadVideoImage trace_afterMetadata truthy_def)
qed

lemma trace_downloadVideo:
  "trace (final (downloadVideo L A q d v f t s)) =
     trace s @ since s (final (downloadVideo L A q d v f t s))"
proof (cases rule: downloadVideo_cases[where L=L and A=A and q=q and d=d and v=v and f=f and t=t and s=s])
  case before
  then show ?thesis by (simp add: since_def emit_def inc_skipped_def)
next
  case after
  then show ?thesis by (simp add: since_def emit_def inc_skipped_def)
next
  case threw
  then show ?thesis by (simp add: since_def trace_afterMetadata)
next
  case tracked
  then show ?thesis
    by (simp add: since_def emit_def inc_skipped_def trace_downloadVideoImage trace_afterMetadata)
next
  case no_url
  then show ?thesis
    by (simp add: since_def emit_def inc_skipped_def trace_downloadVideoImage trace_afterMetadata)
next
  case (fetch u)
  then show ?thesis
    by (simp add: since_def trace_fetchVideo trace_downloadVideoImage trace_afterMetadata truthy_def)
qed

lemma counts_downloadVideo:
  "counts (final (downloadVideo L A q d v f t s)) =
     (if videoThrows L d v f t s then counts s
      else if bound_test f (isBefore_day (dayjs L (publish_date v))) \<or>
         bound_test t (isAfter_day (dayjs L (publish_date v))) \<or>
         video_id v \<in> ledger s d \<or> \<not> truthy (urlToDownload q v)
      then (counts s)\<lparr>skipped := skipped (counts s) + 1\<rparr>
      else if fetchSuccess L A q d v (the (urlToDownload q v))
                (downloadVideoImage L A d v (afterMetadata L d v s))
      then (counts s)\<lparr>downloaded := downloaded (counts s) + 1\<rparr>
      else (counts s)\<lparr>failed := failed (counts s) + 1\<rparr>)"
  by (cases rule: downloadVideo_cases[where L=L and A=A and q=q and d=d and v=v and f=f and t=t and s=s])
     (simp_all add: videoThrows_def emit_def inc_skipped_def counts_fetchVideo
        counts_downloadVideoImage counts_afterMetadata truthy_def)

lemma ledger_downloadVideoImage_d:
  "ledger (downloadVideoImage L A d v s) d = ledger s d \<or>
   ledger (downloadVideoImage L A d v s) d = insert (video_id v @ ''_image'') (ledger s d)"
  using ledger_downloadVideoImage[of L A d v s] by auto

lemma ledger_downloadVideo:
  "video_id v \<in> ledger (final (downloadVideo L A q d v f t s)) d \<longleftrightarrow>
     video_id v \<in> ledger s d \<or>
     (\<not> bound_test f (isBefore_day (dayjs L (publish_date v))) \<and>
      \<not> bound_test t (isAfter_day (dayjs L (publish_date v))) \<and>
      \<not> metadataThrows L d v s \<and> truthy (urlToDownload q v) \<and>
      fetchSuccess L A q d v (the (urlToDownload q v))
         (downloadVideoImage L A d v (afterMetadata L d v s)))"
  by (cases rule: downloadVideo_cases[where L=L and A=A and q=q and d=d and v=v and f=f and t=t and s=s])
     (simp_all add: emit_def inc_skipped_def ledger_fetchVideo tracked_downloadVideoImage
        ledger_afterMetadata truthy_def)

lemma endOf_day_less: "endOf_day a < b \<longleftrightarrow> day_of a < day_of b"
  unfolding endOf_day_def startOf_day_def day_of_def ms_per_day_def by linarith

lemma less_startOf_day: "b < startOf_day a \<longleftrightarrow> day_of b < day_of a"
  unfolding startOf_day_def day_of_def ms_per_day_def by linarith

lemma before_iff: "bound_test f (isBefore_day p) = strictlyBefore p f"
  by (cases "(p, f)" rule: strictlyBefore.cases) (auto simp: bound_test_def endOf_day_less split: option.splits)

lemma after_iff: "bound_test t (isAfter_day p) = strictlyAfter p t"
  by (cases "(p, t)" rule: strictlyAfter.cases) (auto simp: bound_test_def less_startOf_day split: option.splits)

lemma fromVideoDownload_metadataEvents:
  "fromVideoDownload (metadataEvents L d v s @ xs) = fromVideoDownload xs"
  by (simp add: fromVideoDownload_def metadataEvents_def)

lemma fromVideoDownload_imageEvents:
  "fromVideoDownload (imageEvents L A d v s @ xs) = fromVideoDownload xs"
  by (simp add: fromVideoDownload_def imageEvents_def split: option.splits)

lemma fromVideoDownload_fetchEvents:
  "fromVideoDownload (fetchEvents L A q d v u s) = fetchEvents L A q d v u s"
  by (simp add: fromVideoDownload_def fetchEvents_def)

lemma fromVideoDownload_since:
  "fromVideoDownload (since s (final (downloadVideo L A q d v f t s))) =
     (if bound_test f (isBefore_day (dayjs L (publish_date v))) \<or>
         bound_test t (isAfter_day (dayjs L (publish_date v))) \<or>
         metadataThrows L d v s \<or>
         video_id v \<in> ledger s d \<or> \<not> truthy (urlToDownload q v)
      then []
      else fetchEvents L A q d v (the (urlToDownload q v))
             (downloadVideoImage L A d v (afterMetadata L d v s)))"
  by (simp add: since_downloadVideo fromVideoDownload_metadataEvents
        fromVideoDownload_imageEvents fromVideoDownload_fetchEvents)
     (simp add: fromVideoDownload_def metadataEvents_def)

text \<open>When the video file is fetched, the announcement of the download stands in the trace
  at the position that is the time of the state after the image step.\<close>

lemma fetch_position:
  assumes "fromVideoDownload (since s (final (downloadVideo L A q d v f t s))) \<noteq> []"
  shows "length (trace (final (downloadVideo L A q d v f t s))) -
           length (fromVideoDownload (since s (final (downloadVideo L A q d v f t s)))) =
         now (downloadVideoImage L A d v (afterMetadata L d v s))"
proof (cases rule: downloadVideo_cases[where L=L and A=A and q=q and d=d and v=v and f=f and t=t and s=s])
  case before
  show ?thesis using assms before(1) by (simp add: fromVideoDownload_since)
next
  case after
  show ?thesis using assms after(1,2) by (simp add: fromVideoDownload_since)
next
  case threw
  show ?thesis using assms threw(1-3) by (simp add: fromVideoDownload_since)
next
  case tracked
  show ?thesis using assms tracked(1-4) by (simp add: fromVideoDownload_since)
next
  case no_url
  show ?thesis using assms no_url(1-5) by (simp add: fromVideoDownload_since)
next
  case (fetch u)
  have "fromVideoDownload (since s (final (downloadVideo L A q d v f t s))) =
      fetchEvents L A q d v u (downloadVideoImage L A d v (afterMetadata L d v s))"
    using fetch(1-6) by (simp add: fromVideoDownload_since truthy_def)
  moreover have "trace (final (downloadVideo L A q d v f t s)) =
      trace (downloadVideoImage L A d v (afterMetadata L d v s)) @
      fetchEvents L A q d v u (downloadVideoImage L A d v (afterMetadata L d v s))"
    using fetch(7) by (simp add: trace_fetchVideo)
  ultimately show ?thesis by (simp add: now_def)
qed

lemma probe_in_metadataEvents: "ApiCheckIfExists x b \<notin> set (metadataEvents L d v s)"
  by (simp add: metadataEvents_def)

lemma probe_in_imageEvents: "ApiCheckIfExists x b \<notin> set (imageEvents L A d v s)"
  by (simp add: imageEvents_def split: option.splits)

lemma probe_in_fetchEvents:
  "ApiCheckIfExists x b \<in> set (fetchEvents L A q d v u s) \<longleftrightarrow>
     q = QUALITY_HIGHEST \<and> hd_url v = Some u \<and> x = replace_8000 u \<and>
     b = checkIfExists A (Suc (Suc (now s))) x"
  by (auto simp add: fetchEvents_def probeEvents_def announced_def emit_def now_def)

lemma probe_in_since:
  assumes "ApiCheckIfExists x b \<in> set (since s (final (downloadVideo L A q d v f t s)))"
  shows "q = QUALITY_HIGHEST \<and> truthy (hd_url v) \<and> urlToDownload q v = hd_url v \<and>
     map_option replace_8000 (hd_url v) = Some x"
proof (cases rule: downloadVideo_cases[where L=L and A=A and q=q and d=d and v=v and f=f and t=t and s=s])
  case before
  show ?thesis using assms before(1) by (simp add: since_downloadVideo)
next
  case after
  show ?thesis using assms after(1,2) by (simp add: since_downloadVideo)
next
  case threw
  show ?thesis using assms threw(1-3)
    by (simp add: since_downloadVideo probe_in_metadataEvents)
next
  case tracked
  show ?thesis using assms tracked(1-4)
    by (simp add: since_downloadVideo probe_in_metadataEvents probe_in_imageEvents)
next
  case no_url
  show ?thesis using assms no_url(1-5)
    by (simp add: since_downloadVideo probe_in_metadataEvents probe_in_imageEvents)
next
  case (fetch u)
  show ?thesis using assms fetch(1-6)
    by (simp add: since_downloadVideo probe_in_metadataEvents probe_in_imageEvents
          probe_in_fetchEvents truthy_def)
qed

lemma replace_8000_bitrate:
  "is_digit a \<Longrightarrow> is_digit b \<Longrightarrow> is_digit c \<Longrightarrow> is_digit e \<Longrightarrow>
     replace_8000 (p @ CHR ''_'' # a # b # c # e # ''.mp4'') = p @ ''_8000.mp4''"
  by (simp add: replace_8000_def)

lemma last_since_downloadVideo:
  "last (since s (final (downloadVideo L A q d v f t s))) =
     (if bound_test f (isBefore_day (dayjs L (publish_date v)))
      then LoggerEpisodeSkipBeforeDate (name v) (dayjs L (publish_date v)) f
      else if bound_test t (isAfter_day (dayjs L (publish_date v)))
      then LoggerEpisodeSkipAfterDate (name v) (dayjs L (publish_date v)) t
      else if metadataThrows L d v s
      then FsWriteFile (metadataPath L d v) (JsonVideo v) False
      else if video_id v \<in> ledger s d then LoggerVideoSkipDownloaded (name v)
      else if \<not> truthy (urlToDownload q v) then LoggerVideoSkipNoURL (name v) q
      else if fetchSuccess L A q d v (the (urlToDownload q v))
                (downloadVideoImage L A d v (afterMetadata L d v s))
      then TrackerMarkDownloaded d (video_id v)
      else ApiDownloadFile
             (fetchedUrl A q v (the (urlToDownload q v))
                (announced L v (the (urlToDownload q v))
                   (downloadVideoImage L A d v (afterMetadata L d v s))))
             (join L d (videoFilename L v (the (urlToDownload q v)))) False)"
  by (simp add: since_downloadVideo fetchEvents_def)
     (simp add: metadataEvents_def metadataThrows_def)

lemma success_suffix:
  assumes "\<not> bound_test f (isBefore_day (dayjs L (publish_date v)))"
      and "\<not> bound_test t (isAfter_day (dayjs L (publish_date v)))"
      and "\<not> metadataThrows L d v s"
      and "video_id v \<notin> ledger s d" and "truthy (urlToDownload q v)"
      and "fetchSuccess L A q d v (the (urlToDownload q v))
             (downloadVideoImage L A d v (afterMetadata L d v s))"
  shows "\<exists>pre url p. since s (final (downloadVideo L A q d v f t s)) =
           pre @ [ApiDownloadFile url p True, TrackerMarkDownloaded d (video_id v)]"
proof -
  let ?u = "the (urlToDownload q v)"
  let ?s2 = "downloadVideoImage L A d v (afterMetadata L d v s)"
  have "since s (final (downloadVideo L A q d v f t s)) =
      (metadataEvents L d v s @ imageEvents L A d v (afterMetadata L d v s) @
       LoggerVideoDownload (name v) (videoFilename L v ?u) #
       probeEvents A q v ?u (announced L v ?u ?s2)) @
      [ApiDownloadFile (fetchedUrl A q v ?u (announced L v ?u ?s2))
         (join L d (videoFilename L v ?u)) True,
       TrackerMarkDownloaded d (video_id v)]"
    using assms by (simp add: since_downloadVideo fetchEvents_def)
  then show ?thesis by blast
qed

lemma failure_suffix:
  assumes "\<not> bound_test f (isBefore_day (dayjs L (publish_date v)))"
      and "\<not> bound_test t (isAfter_day (dayjs L (publish_date v)))"
      and "\<not> metadataThrows L d v s"
      and "video_id v \<notin> ledger s d" and "truthy (urlToDownload q v)"
      and "\<not> fetchSuccess L A q d v (the (urlToDownload q v))
             (downloadVideoImage L A d v (afterMetadata L d v s))"
  shows "\<exists>pre url p. since s (final (downloadVideo L A q d v f t s)) =
           pre @ [ApiDownloadFile url p False]"
proof -
  let ?u = "the (urlToDownload q v)"
  let ?s2 = "downloadVideoImage L A d v (afterMetadata L d v s)"
  have "since s (final (downloadVideo L A q d v f t s)) =
      (metadataEvents L d v s @ imageEvents L A d v (afterMetadata L d v s) @
       LoggerVideoDownload (name v) (videoFilename L v ?u) #
       probeEvents A q v ?u (announced L v ?u ?s2)) @
      [ApiDownloadFile (fetchedUrl A q v ?u (announced L v ?u ?s2))
         (join L d (videoFilename L v ?u)) False]"
    using assms by (simp add: since_downloadVideo fetchEvents_def)
  then show ?thesis by blast
qed

lemma existsSync_downloadVideoImage:
  "existsSync s p \<Longrightarrow> existsSync (downloadVideoImage L A d v s) p"
  by (simp add: downloadVideoImage_def state_ops Let_def split_beta split: option.splits)

lemma existsSync_afterMetadata:
  "existsSync s p \<Longrightarrow> existsSync (afterMetadata L d v s) p"
  by (simp add: afterMetadata_def writeVideoMetadata_def state_ops)

lemma metadata_exists_afterMetadata:
  "\<not> metadataThrows L d v s \<Longrightarrow> existsSync (afterMetadata L d v s) (metadataPath L d v)"
  by (auto simp add: afterMetadata_def writeVideoMetadata_def metadataThrows_def state_ops)

lemma existsSync_fetchVideo:
  "existsSync s p \<Longrightarrow> existsSync (fetchVideo L A q d v u s) p"
  by (simp add: fetchVideo_def Let_def split_beta frame_checkHighest
        state_ops)

lemma lookups_append: "lookups (xs @ ys) = lookups xs @ lookups ys"
  by (induction xs rule: lookups.induct) simp_all

lemma extends_iff: "extends s s' \<longleftrightarrow> (\<exists>es. trace s' = trace s @ es)"
  unfolding extends_def by (metis append_eq_conv_conj append_take_drop_id)

lemma extends_since: "extends s s' \<Longrightarrow> trace s' = trace s @ since s s'"
  unfolding extends_def since_def by (metis append_take_drop_id)

lemma extends_refl: "extends s s"
  by (simp add: extends_def)

lemma extends_trans: "extends s s1 \<Longrightarrow> extends s1 s2 \<Longrightarrow> extends s s2"
  unfolding extends_iff by auto

lemma extendsI: "trace s' = trace s @ es \<Longrightarrow> extends s s'"
  unfolding extends_iff by blast

lemma since_trans:
  "extends s s1 \<Longrightarrow> extends s1 s2 \<Longrightarrow> since s s2 = since s s1 @ since s1 s2"
  unfolding extends_iff by (auto simp add: since_def)

lemma extends_downloadVideo: "extends s (final (downloadVideo L A q d v f t s))"
  using trace_downloadVideo by (rule extendsI)

text \<open>Sequencing and the two loops keep any relation between the state before and the state
  reached that is reflexive and transitive and that every step keeps.\<close>

lemma andThen_Inr: "andThen r f = Inr s' \<longleftrightarrow> (\<exists>s1. r = Inr s1 \<and> f s1 = Inr s')"
  by (cases r) auto

lemma final_andThen:
  "final (andThen r f) = (case r of Inl x \<Rightarrow> snd x | Inr s1 \<Rightarrow> final (f s1))"
  by (cases r) auto

lemma invariant_andThen:
  assumes "\<And>a b c. R a b \<Longrightarrow> R b c \<Longrightarrow> R a c"
      and "R s (final r)"
      and "\<And>s1. r = Inr s1 \<Longrightarrow> R s1 (final (f s1))"
  shows "R s (final (andThen r f))"
proof (cases r rule: result_cases)
  case (returned s1)
  from assms(2) returned have "R s s1" by simp
  moreover from assms(3) returned have "R s1 (final (f s1))" by simp
  ultimately have "R s (final (f s1))" by (rule assms(1))
  with returned show ?thesis by simp
next
  case (ended e s1)
  with assms(2) show ?thesis by simp
qed

lemma invariant_forVideos:
  assumes refl: "\<And>a. R a a"
      and trans: "\<And>a b c. R a b \<Longrightarrow> R b c \<Longrightarrow> R a c"
      and step: "\<And>v a. R a (final (downloadVideo L A q d v f t a))"
  shows "R s (final (forVideos L A q d f t videos s))"
proof (induction videos arbitrary: s)
  case Nil
  show ?case by (simp add: refl)
next
  case (Cons v videos)
  have "R s (final (andThen (downloadVideo L A q d v f t s) (forVideos L A q d f t videos)))"
    by (rule invariant_andThen[of R, OF trans step Cons.IH])
  then show ?case by simp
qed

lemma invariant_forVideoIds:
  assumes refl: "\<And>a. R a a"
      and trans: "\<And>a b c. R a b \<Longrightarrow> R b c \<Longrightarrow> R a c"
      and step: "\<And>v a. R a (final (downloadVideo L A q d v None None a))"
      and lookup: "\<And>i a. R a (emit (ApiGetVideoById i) a)"
      and fail: "\<And>a. R a (inc_failed a)"
  shows "R s (final (forVideoIds L A q d ids s))"
proof (induction ids arbitrary: s)
  case Nil
  show ?case by (simp add: refl)
next
  case (Cons i ids)
  let ?s1 = "emit (ApiGetVideoById i) s"
  show ?case
  proof (cases "getVideoById A (now s) i")
    case None
    have "R s ?s1" by (rule lookup)
    moreover have "R ?s1 (inc_failed ?s1)" by (rule fail)
    ultimately have "R s (inc_failed ?s1)" by (rule trans)
    then have "R s (final (forVideoIds L A q d ids (inc_failed ?s1)))"
      using Cons.IH by (rule trans)
    with None show ?thesis by simp
  next
    case (Some v)
    have "R ?s1 (final (andThen (downloadVideo L A q d v None None ?s1) (forVideoIds L A q d ids)))"
      by (rule invariant_andThen[of R, OF trans step Cons.IH])
    with lookup[of s i]
    have "R s (final (andThen (downloadVideo L A q d v None None ?s1) (forVideoIds L A q d ids)))"
      by (rule trans)
    with Some show ?thesis by simp
  qed
qed

lemma extends_forVideos: "extends s (final (forVideos L A q d f t videos s))"
proof (rule invariant_forVideos[where R=extends])
  show "extends a a" for a by (rule extends_refl)
  show "extends a c" if "extends a b" "extends b c" for a b c
    using that by (rule extends_trans)
  show "extends a (final (downloadVideo L A q d v f t a))" for v a
    by (rule extends_downloadVideo)
qed

lemma extends_forVideoIds: "extends s (final (forVideoIds L A q d ids s))"
proof (rule invariant_forVideoIds[where R=extends])
  show "extends a a" for a by (rule extends_refl)
  show "extends a c" if "extends a b" "extends b c" for a b c
    using that by (rule extends_trans)
  show "extends a (final (downloadVideo L A q d v None None a))" for v a
    by (rule extends_downloadVideo)
  show "extends a (emit (ApiGetVideoById i) a)" for i a
    by (rule extendsI[of _ _ "[ApiGetVideoById i]"]) (simp add: emit_def)
  show "extends a (inc_failed a)" for a
    by (rule extendsI[of _ _ "[]"]) (simp add: inc_failed_def)
qed

lemma downloadVideo_Inr:
  "downloadVideo L A q d v f t s = Inr s1 \<longleftrightarrow>
     \<not> videoThrows L d v f t s \<and> s1 = final (downloadVideo L A q d v f t s)"
proof (cases "videoThrows L d v f t s")
  case True
  then obtain x where "downloadVideo L A q d v f t s = Inl x"
    using downloadVideo_result[of L A q d v f t s] by simp
  with True show ?thesis by simp
next
  case False
  then have "downloadVideo L A q d v f t s = Inr (final (downloadVideo L A q d v f t s))"
    using downloadVideo_result[of L A q d v f t s] by simp
  with False show ?thesis by (metis sum.inject(2))
qed

lemma downloadVideo_Inl:
  "downloadVideo L A q d v f t s = Inl (e, s1) \<longleftrightarrow>
     videoThrows L d v f t s \<and> e = Uncaught (metadataPath L d v) \<and>
     s1 = final (downloadVideo L A q d v f t s)"
proof (cases "videoThrows L d v f t s")
  case True
  then have "downloadVideo L A q d v f t s =
      Inl (Uncaught (metadataPath L d v), final (downloadVideo L A q d v f t s))"
    using downloadVideo_result[of L A q d v f t s] by simp
  with True show ?thesis by (metis sum.inject(1) prod.inject)
next
  case False
  then obtain x where "downloadVideo L A q d v f t s = Inr x"
    using downloadVideo_result[of L A q d v f t s] by simp
  with False show ?thesis by simp
qed

lemma total_downloadVideo:
  assumes "downloadVideo L A q d v f t s = Inr s1"
  shows "total (counts s1) = Suc (total (counts s))"
  using assms unfolding downloadVideo_Inr by (simp add: counts_downloadVideo total_def)

lemma total_forVideos:
  assumes "forVideos L A q d f t videos s = Inr s'"
  shows "total (counts s') = total (counts s) + length videos"
  using assms
proof (induction videos arbitrary: s)
  case Nil
  then show ?case by simp
next
  case (Cons v videos)
  then obtain s1 where s1: "downloadVideo L A q d v f t s = Inr s1"
    and rest: "forVideos L A q d f t videos s1 = Inr s'"
    by (auto simp add: andThen_Inr)
  from Cons.IH[OF rest] total_downloadVideo[OF s1] show ?case by simp
qed

lemma guarded_refl: "guarded s s"
  by (simp add: guarded_def extends_refl since_self)

lemma guarded_trans:
  assumes "guarded s s1" and "guarded s1 s2"
  shows "guarded s s2"
proof -
  from assms have e: "extends s s1" "extends s1 s2" by (simp_all add: guarded_def)
  then have sp: "since s s2 = since s s1 @ since s1 s2" by (rule since_trans)
  from e have "extends s s2" by (rule extends_trans)
  moreover have "existsSync s2 p \<and>
         (\<forall>c b. FsWriteFile p c b \<notin> set (since s s2)) \<and>
         ((\<forall>u. ApiDownloadFile u p True \<notin> set (since s s2)) \<longrightarrow> files s2 p = files s p)"
    if p: "existsSync s p" for p
  proof -
    from assms(1) p have p1: "existsSync s1 p" "\<forall>c b. FsWriteFile p c b \<notin> set (since s s1)"
      "(\<forall>u. ApiDownloadFile u p True \<notin> set (since s s1)) \<longrightarrow> files s1 p = files s p"
      by (simp_all add: guarded_def)
    from assms(2) p1(1) have p2: "existsSync s2 p" "\<forall>c b. FsWriteFile p c b \<notin> set (since s1 s2)"
      "(\<forall>u. ApiDownloadFile u p True \<notin> set (since s1 s2)) \<longrightarrow> files s2 p = files s1 p"
      by (simp_all add: guarded_def)
    from p1 p2 show ?thesis unfolding sp by auto
  qed
  ultimately show ?thesis by (simp add: guarded_def)
qed

lemma guardedI:
  assumes "trace s' = trace s @ es"
      and "\<And>p. existsSync s p \<Longrightarrow> existsSync s' p"
      and "\<And>p c b. existsSync s p \<Longrightarrow> FsWriteFile p c b \<notin> set es"
      and "\<And>p. existsSync s p \<Longrightarrow> \<forall>u. ApiDownloadFile u p True \<notin> set es \<Longrightarrow> files s' p = files s p"
  shows "guarded s s'"
proof -
  from assms(1) have "extends s s'" by (rule extendsI)
  moreover from assms(1) have "since s s' = es" by (rule since_ext)
  ultimately show ?thesis using assms(2-4) by (simp add: guarded_def)
qed

lemma guarded_exists: "guarded s s' \<Longrightarrow> existsSync s p \<Longrightarrow> existsSync s' p"
  by (simp add: guarded_def)

lemma guarded_same_files:
  assumes "trace s' = trace s @ es" and "files s' = files s" and "dirs s \<subseteq> dirs s'"
      and "\<forall>p c b. FsWriteFile p c b \<notin> set es"
  shows "guarded s s'"
proof (rule guardedI[of _ _ es])
  show "trace s' = trace s @ es" by (rule assms(1))
  show "existsSync s' p" if "existsSync s p" for p
    using that assms(2,3) by (auto simp add: existsSync_def)
  show "FsWriteFile p c b \<notin> set es" for p c b using assms(4) by simp
  show "files s' p = files s p" for p using assms(2) by simp
qed

lemma guarded_emit:
  assumes "\<forall>p c b. e \<noteq> FsWriteFile p c b"
  shows "guarded s (emit e s)"
  by (rule guarded_same_files[of _ _ "[e]"]) (use assms in \<open>auto simp add: emit_def\<close>)

lemma guarded_counts: "guarded s (s\<lparr>counts := c\<rparr>)"
  by (rule guarded_same_files[of _ _ "[]"]) auto

lemma guarded_skip:
  assumes "\<forall>p c b. e \<noteq> FsWriteFile p c b"
  shows "guarded s (emit e (inc_skipped s))"
  by (rule guarded_same_files[of _ _ "[e]"]) (use assms in \<open>auto simp add: emit_def inc_skipped_def\<close>)

lemma guarded_afterMetadata: "guarded s (afterMetadata L d v s)"
proof (rule guardedI[of _ _ "metadataEvents L d v s"])
  show "trace (afterMetadata L d v s) = trace s @ metadataEvents L d v s"
    by (rule trace_afterMetadata)
  show "existsSync (afterMetadata L d v s) p" if "existsSync s p" for p
    using that by (rule existsSync_afterMetadata)
  show "FsWriteFile p c b \<notin> set (metadataEvents L d v s)" if "existsSync s p" for p c b
    using that by (auto simp add: metadataEvents_def)
  show "files (afterMetadata L d v s) p = files s p" if "existsSync s p" for p
    using that by (auto simp add: files_afterMetadata)
qed

lemma files_downloadVideoImage:
  "files (downloadVideoImage L A d v s) p = files s p \<or>
   (\<exists>u. ApiDownloadFile u p True \<in> set (imageEvents L A d v s))"
  by (simp add: downloadVideoImage_def imageEvents_def state_ops Let_def split_beta
        split: option.splits)

lemma write_in_imageEvents: "FsWriteFile p c b \<notin> set (imageEvents L A d v s)"
  by (simp add: imageEvents_def split: option.splits)

lemma guarded_downloadVideoImage: "guarded s (downloadVideoImage L A d v s)"
proof (rule guardedI[of _ _ "imageEvents L A d v s"])
  show "trace (downloadVideoImage L A d v s) = trace s @ imageEvents L A d v s"
    by (rule trace_downloadVideoImage)
  show "existsSync (downloadVideoImage L A d v s) p" if "existsSync s p" for p
    using that by (rule existsSync_downloadVideoImage)
  show "FsWriteFile p c b \<notin> set (imageEvents L A d v s)" for p c b
    by (rule write_in_imageEvents)
  show "files (downloadVideoImage L A d v s) p = files s p"
    if "\<forall>u. ApiDownloadFile u p True \<notin> set (imageEvents L A d v s)" for p
    using that files_downloadVideoImage[of L A d v s p] by blast
qed

lemma files_fetchVideo:
  "files (fetchVideo L A q d v u s) p = files s p \<or>
   (\<exists>x. ApiDownloadFile x p True \<in> set (fetchEvents L A q d v u s))"
proof (cases "fetchSuccess L A q d v u s \<and> p = join L d (videoFilename L v u)")
  case True
  then have "ApiDownloadFile (fetchedUrl A q v u (announced L v u s)) p True
      \<in> set (fetchEvents L A q d v u s)"
    by (simp add: fetchEvents_def)
  then show ?thesis by blast
next
  case False
  then have "files (fetchVideo L A q d v u s) p = files s p"
    by (auto simp add: fetchVideo_def fetchSuccess_def announced_def Let_def split_beta
        trace_checkHighest fst_checkHighest frame_checkHighest
        emit_def now_def inc_downloaded_def inc_failed_def markDownloaded_def api_downloadFile_def)
  then show ?thesis by blast
qed

lemma write_in_fetchEvents: "FsWriteFile p c b \<notin> set (fetchEvents L A q d v u s)"
  by (simp add: fetchEvents_def probeEvents_def)

lemma guarded_fetchVideo: "guarded s (fetchVideo L A q d v u s)"
proof (rule guardedI[of _ _ "fetchEvents L A q d v u s"])
  show "trace (fetchVideo L A q d v u s) = trace s @ fetchEvents L A q d v u s"
    by (rule trace_fetchVideo)
  show "existsSync (fetchVideo L A q d v u s) p" if "existsSync s p" for p
    using that by (rule existsSync_fetchVideo)
  show "FsWriteFile p c b \<notin> set (fetchEvents L A q d v u s)" for p c b
    by (rule write_in_fetchEvents)
  show "files (fetchVideo L A q d v u s) p = files s p"
    if "\<forall>x. ApiDownloadFile x p True \<notin> set (fetchEvents L A q d v u s)" for p
    using that files_fetchVideo[of L A q d v u s p] by blast
qed

lemma guarded_downloadVideo: "guarded s (final (downloadVideo L A q d v f t s))"
proof -
  let ?s2 = "downloadVideoImage L A d v (afterMetadata L d v s)"
  have g2: "guarded s ?s2"
    using guarded_afterMetadata guarded_downloadVideoImage by (rule guarded_trans)
  show ?thesis
  proof (cases rule: downloadVideo_cases[where L=L and A=A and q=q and d=d and v=v and f=f and t=t and s=s])
    case before
    show ?thesis unfolding before(2) final_simps by (rule guarded_skip) simp
  next
    case after
    show ?thesis unfolding after(3) final_simps by (rule guarded_skip) simp
  next
    case threw
    show ?thesis unfolding threw(4) final_simps by (rule guarded_afterMetadata)
  next
    case tracked
    have "guarded ?s2 (emit (LoggerVideoSkipDownloaded (name v)) (inc_skipped ?s2))"
      by (rule guarded_skip) simp
    with g2 show ?thesis unfolding tracked(5) final_simps by (rule guarded_trans)
  next
    case no_url
    have "guarded ?s2 (emit (LoggerVideoSkipNoURL (name v) q) (inc_skipped ?s2))"
      by (rule guarded_skip) simp
    with g2 show ?thesis unfolding no_url(6) final_simps by (rule guarded_trans)
  next
    case (fetch u)
    from g2 guarded_fetchVideo show ?thesis unfolding fetch(7) final_simps by (rule guarded_trans)
  qed
qed

lemma guarded_forVideos: "guarded s (final (forVideos L A q d f t videos s))"
proof (rule invariant_forVideos[where R=guarded])
  show "guarded a a" for a by (rule guarded_refl)
  show "guarded a c" if "guarded a b" "guarded b c" for a b c
    using that by (rule guarded_trans)
  show "guarded a (final (downloadVideo L A q d v f t a))" for v a
    by (rule guarded_downloadVideo)
qed

lemma guarded_andThen:
  assumes "guarded s (final r)" and "\<And>s1. r = Inr s1 \<Longrightarrow> guarded s1 (final (f s1))"
  shows "guarded s (final (andThen r f))"
proof (rule invariant_andThen[where R=guarded])
  show "guarded a c" if "guarded a b" "guarded b c" for a b c
    using that by (rule guarded_trans)
  show "guarded s (final r)" by (rule assms(1))
  show "guarded s1 (final (f s1))" if "r = Inr s1" for s1 using that by (rule assms(2))
qed

lemma write_in_since_downloadVideo:
  assumes "FsWriteFile p c b \<in> set (since s (final (downloadVideo L A q d v f t s)))"
  shows "p = metadataPath L d v \<and> c = JsonVideo v"
  using assms
  by (simp add: since_downloadVideo write_in_imageEvents write_in_fetchEvents metadataEvents_def
        split: if_splits)

lemma existsSync_downloadUntracked:
  assumes "existsSync s p"
  shows "existsSync (downloadUntracked L A q d v s) p"
proof -
  have skip: "existsSync (emit e (inc_skipped s)) p" for e
    using assms by (simp add: existsSync_def emit_def inc_skipped_def)
  have fetch: "existsSync (fetchVideo L A q d v u s) p" for u
    using assms by (rule existsSync_fetchVideo)
  show ?thesis
    by (simp add: downloadUntracked_def skip fetch split: option.splits)
qed

lemma documented_after_downloadVideo:
  assumes "downloadVideo L A q d v f t s = Inr s1"
  shows "documented L d f t s1 v"
proof (cases "bound_test f (isBefore_day (dayjs L (publish_date v))) \<or>
    bound_test t (isAfter_day (dayjs L (publish_date v)))")
  case True
  then show ?thesis by (auto simp add: documented_def)
next
  case False
  with assms have nm: "\<not> metadataThrows L d v s"
    unfolding downloadVideo_Inr by (simp add: videoThrows_def)
  have "s1 = downloadUntracked L A q d v (downloadVideoImage L A d v (afterMetadata L d v s))"
    using assms False nm
    by (simp add: downloadVideo_def processVideo_def writeVideoMetadata_result)
  moreover have "existsSync (downloadVideoImage L A d v (afterMetadata L d v s)) (metadataPath L d v)"
    using nm by (simp add: existsSync_downloadVideoImage metadata_exists_afterMetadata)
  ultimately show ?thesis
    by (simp add: documented_def existsSync_downloadUntracked)
qed

lemma guarded_writeShowMetadata: "guarded s (final (writeShowMetadata L d sh s))"
proof (cases "existsSync s (join L d ''metadata.json'')")
  case True
  then show ?thesis by (simp add: writeShowMetadata_def guarded_refl)
next
  case False
  let ?b = "\<not> writeThrows L (Suc (now s)) (join L d ''metadata.json'')"
  let ?es = "[LoggerDebug ''Writing metadata for show'',
      FsWriteFile (join L d ''metadata.json'') (JsonShow sh) ?b]"
  show ?thesis
  proof (rule guardedI[of _ _ ?es])
    show "trace (final (writeShowMetadata L d sh s)) = trace s @ ?es"
      using False by (simp add: writeShowMetadata_def state_ops)
    show "existsSync (final (writeShowMetadata L d sh s)) p" if "existsSync s p" for p
      using that by (simp add: writeShowMetadata_def state_ops)
    show "FsWriteFile p c b \<notin> set ?es" if "existsSync s p" for p c b
      using that False by auto
    show "files (final (writeShowMetadata L d sh s)) p = files s p" if "existsSync s p" for p
      using that False by (auto simp add: writeShowMetadata_def state_ops)
  qed
qed

lemma writeShowMetadata_Inr:
  assumes "writeShowMetadata L d sh s = Inr s1"
  shows "existsSync s1 (join L d ''metadata.json'')"
  using assms by (auto simp add: writeShowMetadata_def state_ops split: if_splits)

lemma writeShowMetadata_exists:
  "existsSync s (join L d ''metadata.json'') \<Longrightarrow> writeShowMetadata L d sh s = Inr s"
  by (simp add: writeShowMetadata_def)

lemma guarded_createDirectory: "guarded s (final (createDirectory L d s))"
proof (cases "existsSync s d")
  case True
  then show ?thesis by (simp add: createDirectory_def guarded_refl)
next
  case False
  have "guarded s (final (mkdirSync L d s))"
    by (rule guarded_same_files[of _ _ "[FsMkdir d (\<not> mkdirThrows L (now s) d)]"])
       (auto simp add: mkdirSync_def emit_def now_def)
  with False show ?thesis by (simp add: createDirectory_def)
qed

lemma createDirectory_Inr:
  assumes "createDirectory L d s = Inr s1"
  shows "existsSync s1 d"
  using assms by (auto simp add: createDirectory_def state_ops split: if_splits)

lemma createDirectory_exists: "existsSync s d \<Longrightarrow> createDirectory L d s = Inr s"
  by (simp add: createDirectory_def)

lemma guarded_downloadPoster: "guarded s (downloadPoster L A d u stem label key s)"
proof (cases "truthy u \<and> \<not> isDownloaded d key s")
  case False
  then have "downloadPoster L A d u stem label key s = s"
    by (auto simp add: downloadPoster_def truthy_def Let_def split: option.splits)
  then show ?thesis by (simp add: guarded_refl)
next
  case True
  then obtain url where u: "u = Some url" "url \<noteq> []" "\<not> isDownloaded d key s"
    by (auto simp add: truthy_def split: option.splits)
  let ?p = "join L d (stem @ extname L url)"
  let ?ok = "downloadFile A (Suc (now s)) url ?p"
  let ?es = "[LoggerPosterDownload label (stem @ extname L url), ApiDownloadFile url ?p ?ok] @
             (if ?ok then [TrackerMarkDownloaded d key] else [])"
  show ?thesis
  proof (rule guardedI[of _ _ ?es])
    show "trace (downloadPoster L A d u stem label key s) = trace s @ ?es"
      using u by (simp add: downloadPoster_def state_ops Let_def split_beta)
    show "existsSync (downloadPoster L A d u stem label key s) p" if "existsSync s p" for p
      using that u by (simp add: downloadPoster_def state_ops Let_def split_beta)
    show "FsWriteFile p c b \<notin> set ?es" for p c b by simp
    show "files (downloadPoster L A d u stem label key s) p = files s p"
      if "\<forall>x. ApiDownloadFile x p True \<notin> set ?es" for p
      using that u by (auto simp add: downloadPoster_def state_ops Let_def split_beta)
  qed
qed

lemma guarded_downloadPosters: "guarded s (downloadPosters L A d sh s)"
  unfolding downloadPosters_def
  using guarded_downloadPoster guarded_downloadPoster by (rule guarded_trans)

lemma guarded_prepareShow: "guarded s (final (prepareShow L A d sh s))"
  unfolding prepareShow_def
proof (rule guarded_andThen)
  show "guarded s (final (createDirectory L d s))" by (rule guarded_createDirectory)
  show "guarded s1 (final (andThen (writeShowMetadata L d sh s1)
      (\<lambda>s2. Inr (downloadPosters L A d sh s2))))" for s1
  proof (rule guarded_andThen)
    show "guarded s1 (final (writeShowMetadata L d sh s1))" by (rule guarded_writeShowMetadata)
    show "guarded s2 (final (Inr (downloadPosters L A d sh s2)))" for s2
      by (simp add: guarded_downloadPosters)
  qed
qed

lemma prepareShow_Inr:
  assumes "prepareShow L A d sh s = Inr s3"
  shows "existsSync s3 d \<and> existsSync s3 (join L d ''metadata.json'')"
proof -
  from assms obtain s1 s2 where s1: "createDirectory L d s = Inr s1"
    and s2: "writeShowMetadata L d sh s1 = Inr s2"
    and s3: "s3 = downloadPosters L A d sh s2"
    by (auto simp add: prepareShow_def andThen_Inr)
  have "existsSync s1 d" using s1 by (rule createDirectory_Inr)
  moreover have "guarded s1 s2" using guarded_writeShowMetadata[of s1 L d sh] s2 by simp
  ultimately have "existsSync s2 d" by (simp add: guarded_def)
  moreover have "existsSync s2 (join L d ''metadata.json'')" using s2 by (rule writeShowMetadata_Inr)
  moreover have "guarded s2 s3" unfolding s3 by (rule guarded_downloadPosters)
  ultimately show ?thesis by (simp add: guarded_def)
qed

lemma prepareShow_exists:
  assumes "existsSync s d" and "existsSync s (join L d ''metadata.json'')"
  shows "prepareShow L A d sh s = Inr (downloadPosters L A d sh s)"
  using assms by (simp add: prepareShow_def createDirectory_exists writeShowMetadata_exists)

lemma guarded_downloadShowVideos: "guarded s (final (downloadShowVideos L A P dir sh s))"
proof (cases "getVideos A sh")
  case None
  have "guarded s (emit (ApiGetVideos sh) s)" by (rule guarded_emit) simp
  with None show ?thesis by (simp add: downloadShowVideos_def)
next
  case (Some videos)
  let ?s3 = "(emit (ApiGetVideos sh) s)\<lparr>counts := zero_counts\<rparr>"
  let ?loop = "forVideos L A (opt_quality P) (showDirectory L dir sh)
      (parseDate L (opt_from_date P)) (parseDate L (opt_to_date P)) videos ?s3"
  have "guarded s (emit (ApiGetVideos sh) s)" by (rule guarded_emit) simp
  then have g3: "guarded s ?s3" using guarded_counts by (rule guarded_trans)
  have "guarded ?s3 (final (andThen ?loop
      (\<lambda>s4. Inr (emit (LoggerShowComplete (title sh) (counts s4)) s4))))"
  proof (rule guarded_andThen)
    show "guarded ?s3 (final ?loop)" by (rule guarded_forVideos)
    show "guarded s4 (final (Inr (emit (LoggerShowComplete (title sh) (counts s4)) s4)))" for s4
      by (simp add: guarded_emit)
  qed
  with g3 have "guarded s (final (andThen ?loop
      (\<lambda>s4. Inr (emit (LoggerShowComplete (title sh) (counts s4)) s4))))"
    by (rule guarded_trans)
  with Some show ?thesis by (simp add: downloadShowVideos_def)
qed

lemma guarded_downloadShow: "guarded s (final (downloadShow L A P dir s))"
proof (cases "getShowInfo A (opt_show P)")
  case None
  have "guarded s (emit (ApiGetShowInfo (opt_show P)) s)" by (rule guarded_emit) simp
  with None show ?thesis by (simp add: downloadShow_def)
next
  case (Some sh)
  let ?s1 = "emit (ApiGetShowInfo (opt_show P)) s"
  have g1: "guarded s ?s1" by (rule guarded_emit) simp
  have "guarded ?s1 (final (andThen (prepareShow L A (showDirectory L dir sh) sh ?s1)
      (downloadShowVideos L A P dir sh)))"
  proof (rule guarded_andThen)
    show "guarded ?s1 (final (prepareShow L A (showDirectory L dir sh) sh ?s1))"
      by (rule guarded_prepareShow)
    show "guarded s2 (final (downloadShowVideos L A P dir sh s2))" for s2
      by (rule guarded_downloadShowVideos)
  qed
  with g1 have "guarded s (final (andThen (prepareShow L A (showDirectory L dir sh) sh ?s1)
      (downloadShowVideos L A P dir sh)))"
    by (rule guarded_trans)
  with Some show ?thesis by (simp add: downloadShow_def)
qed

text \<open>What a completed show-mode run went through.\<close>

lemma downloadShow_Inr:
  "downloadShow L A P dir s = Inr s' \<longleftrightarrow>
     (\<exists>sh videos s2 s4.
        getShowInfo A (opt_show P) = Some sh \<and> getVideos A sh = Some videos \<and>
        prepareShow L A (showDirectory L dir sh) sh (emit (ApiGetShowInfo (opt_show P)) s) = Inr s2 \<and>
        forVideos L A (opt_quality P) (showDirectory L dir sh)
          (parseDate L (opt_from_date P)) (parseDate L (opt_to_date P)) videos
          ((emit (ApiGetVideos sh) s2)\<lparr>counts := zero_counts\<rparr>) = Inr s4 \<and>
        s' = emit (LoggerShowComplete (title sh) (counts s4)) s4)"
  by (auto simp add: downloadShow_def downloadShowVideos_def andThen_Inr Let_def
        split: option.splits)

lemma lookups_metadataEvents: "lookups (metadataEvents L d v s) = []"
  by (simp add: metadataEvents_def)

lemma lookups_imageEvents: "lookups (imageEvents L A d v s) = []"
  by (simp add: imageEvents_def split: option.splits)

lemma lookups_fetchEvents: "lookups (fetchEvents L A q d v u s) = []"
  by (simp add: fetchEvents_def probeEvents_def lookups_append)

lemma lookups_downloadVideo: "lookups (since s (final (downloadVideo L A q d v f t s))) = []"
  by (simp add: since_downloadVideo lookups_append lookups_metadataEvents lookups_imageEvents
        lookups_fetchEvents)

lemma dateSkip_metadataEvents: "filter isDateSkip (metadataEvents L d v s) = []"
  by (simp add: metadataEvents_def)

lemma dateSkip_imageEvents: "filter isDateSkip (imageEvents L A d v s) = []"
  by (simp add: imageEvents_def split: option.splits)

lemma dateSkip_fetchEvents: "filter isDateSkip (fetchEvents L A q d v u s) = []"
  by (simp add: fetchEvents_def probeEvents_def)

lemma dateSkip_downloadVideo:
  "filter isDateSkip (since s (final (downloadVideo L A q d v None None s))) = []"
  by (simp add: since_downloadVideo bound_test_def dateSkip_metadataEvents dateSkip_imageEvents
        dateSkip_fetchEvents)

lemma ledger_mono_downloadVideoImage: "ledger s x \<subseteq> ledger (downloadVideoImage L A d v s) x"
  using ledger_downloadVideoImage[of L A d v s] by auto

lemma ledger_mono_downloadVideo:
  "ledger s x \<subseteq> ledger (final (downloadVideo L A q d v f t s)) x"
  using ledger_mono_downloadVideoImage[of "afterMetadata L d v s" x L A d v]
  by (cases rule: downloadVideo_cases[where L=L and A=A and q=q and d=d and v=v and f=f and t=t and s=s])
     (auto simp add: emit_def inc_skipped_def ledger_fetchVideo ledger_afterMetadata)

lemma ledger_mono_forVideos:
  "ledger s x \<subseteq> ledger (final (forVideos L A q d f t videos s)) x"
proof (rule invariant_forVideos[where R="\<lambda>a b. ledger a x \<subseteq> ledger b x"])
  show "ledger a x \<subseteq> ledger a x" for a by simp
  show "ledger a x \<subseteq> ledger c x" if "ledger a x \<subseteq> ledger b x" "ledger b x \<subseteq> ledger c x" for a b c
    using that by simp
  show "ledger a x \<subseteq> ledger (final (downloadVideo L A q d v f t a)) x" for v a
    by (rule ledger_mono_downloadVideo)
qed

lemma failed_mono_downloadVideo:
  "failed (counts s) \<le> failed (counts (final (downloadVideo L A q d v f t s)))"
  by (simp add: counts_downloadVideo)

lemma failed_mono_forVideos:
  "failed (counts s) \<le> failed (counts (final (forVideos L A q d f t videos s)))"
proof (rule invariant_forVideos[where R="\<lambda>a b. failed (counts a) \<le> failed (counts b)"])
  show "failed (counts a) \<le> failed (counts a)" for a by simp
  show "failed (counts a) \<le> failed (counts c)"
    if "failed (counts a) \<le> failed (counts b)" "failed (counts b) \<le> failed (counts c)" for a b c
    using that by simp
  show "failed (counts a) \<le> failed (counts (final (downloadVideo L A q d v f t a)))" for v a
    by (rule failed_mono_downloadVideo)
qed

lemma settled_mono:
  "settled L q d f t s v \<Longrightarrow> ledger s d \<subseteq> ledger s' d \<Longrightarrow> settled L q d f t s' v"
  by (auto simp: settled_def)

lemma documented_mono:
  "documented L d f t s v \<Longrightarrow> guarded s s' \<Longrightarrow> documented L d f t s' v"
  by (auto simp: documented_def guarded_def)

lemma settled_after_downloadVideo:
  assumes "downloadVideo L A q d v f t s = Inr s1"
      and "failed (counts s1) = failed (counts s)"
  shows "settled L q d f t s1 v"
proof -
  from assms(1) have nt: "\<not> videoThrows L d v f t s"
    and s1: "s1 = final (downloadVideo L A q d v f t s)"
    unfolding downloadVideo_Inr by simp_all
  from assms(2) nt show ?thesis unfolding s1
    by (auto simp add: settled_def ledger_downloadVideo counts_downloadVideo videoThrows_def
          split: if_splits)
qed

lemma settled_after_forVideos:
  assumes "forVideos L A q d f t videos s = Inr s'"
      and "failed (counts s') = failed (counts s)"
      and "v \<in> set videos"
  shows "settled L q d f t s' v"
  using assms
proof (induction videos arbitrary: s)
  case Nil
  then show ?case by simp
next
  case (Cons w videos)
  from Cons.prems(1) obtain s1 where s1: "downloadVideo L A q d w f t s = Inr s1"
    and rest: "forVideos L A q d f t videos s1 = Inr s'"
    by (auto simp add: andThen_Inr)
  have a: "failed (counts s) \<le> failed (counts s1)"
    using failed_mono_downloadVideo[of s L A q d w f t] s1 by simp
  have b: "failed (counts s1) \<le> failed (counts s')"
    using failed_mono_forVideos[of s1 L A q d f t videos] rest by simp
  from Cons.prems(2) a b have e1: "failed (counts s1) = failed (counts s)"
    and e2: "failed (counts s') = failed (counts s1)"
    by simp_all
  show ?case
  proof (cases "v = w")
    case True
    have "settled L q d f t s1 w" using s1 e1 by (rule settled_after_downloadVideo)
    moreover have "ledger s1 d \<subseteq> ledger s' d"
      using ledger_mono_forVideos[of s1 d L A q d f t videos] rest by simp
    ultimately have "settled L q d f t s' w" by (rule settled_mono)
    with True show ?thesis by simp
  next
    case False
    with Cons.prems(3) have "v \<in> set videos" by simp
    with Cons.IH[OF rest e2] show ?thesis by simp
  qed
qed

lemma documented_after_forVideos:
  assumes "forVideos L A q d f t videos s = Inr s'" and "v \<in> set videos"
  shows "documented L d f t s' v"
  using assms
proof (induction videos arbitrary: s)
  case Nil
  then show ?case by simp
next
  case (Cons w videos)
  from Cons.prems(1) obtain s1 where s1: "downloadVideo L A q d w f t s = Inr s1"
    and rest: "forVideos L A q d f t videos s1 = Inr s'"
    by (auto simp add: andThen_Inr)
  show ?case
  proof (cases "v = w")
    case True
    have "documented L d f t s1 w" using s1 by (rule documented_after_downloadVideo)
    moreover have "guarded s1 s'"
      using guarded_forVideos[of s1 L A q d f t videos] rest by simp
    ultimately have "documented L d f t s' w" by (rule documented_mono)
    with True show ?thesis by simp
  next
    case False
    with Cons.prems(2) have "v \<in> set videos" by simp
    with Cons.IH[OF rest] show ?thesis by simp
  qed
qed

lemma quiet_downloadVideo:
  assumes "settled L q d f t s v" and "documented L d f t s v"
  shows "downloadVideo L A q d v f t s = Inr (final (downloadVideo L A q d v f t s)) \<and>
         counts (final (downloadVideo L A q d v f t s)) =
           (counts s)\<lparr>skipped := skipped (counts s) + 1\<rparr>"
proof -
  from assms(2) have nt: "\<not> videoThrows L d v f t s"
    by (auto simp add: documented_def videoThrows_def metadataThrows_def)
  then have "downloadVideo L A q d v f t s = Inr (final (downloadVideo L A q d v f t s))"
    using downloadVideo_result[of L A q d v f t s] by simp
  moreover from assms(1) nt have "counts (final (downloadVideo L A q d v f t s)) =
           (counts s)\<lparr>skipped := skipped (counts s) + 1\<rparr>"
    by (simp add: counts_downloadVideo settled_def)
  ultimately show ?thesis by simp
qed

lemma quiet_forVideos:
  assumes "\<And>v. v \<in> set videos \<Longrightarrow> settled L q d f t s v \<and> documented L d f t s v"
  shows "\<exists>s'. forVideos L A q d f t videos s = Inr s' \<and>
           counts s' = (counts s)\<lparr>skipped := skipped (counts s) + length videos\<rparr>"
  using assms
proof (induction videos arbitrary: s)
  case Nil
  show ?case by simp
next
  case (Cons w videos)
  let ?s1 = "final (downloadVideo L A q d w f t s)"
  from Cons.prems[of w] have w: "settled L q d f t s w" "documented L d f t s w" by simp_all
  from quiet_downloadVideo[OF w] have r1: "downloadVideo L A q d w f t s = Inr ?s1"
    and c1: "counts ?s1 = (counts s)\<lparr>skipped := skipped (counts s) + 1\<rparr>"
    by simp_all
  have "settled L q d f t ?s1 v \<and> documented L d f t ?s1 v" if "v \<in> set videos" for v
  proof -
    from Cons.prems[of v] that have "settled L q d f t s v" "documented L d f t s v" by simp_all
    then show ?thesis
      using settled_mono[of L q d f t s v ?s1, OF _ ledger_mono_downloadVideo]
        documented_mono[of L d f t s v ?s1, OF _ guarded_downloadVideo]
      by simp
  qed
  from Cons.IH[OF this] obtain s' where rest: "forVideos L A q d f t videos ?s1 = Inr s'"
    and c': "counts s' = (counts ?s1)\<lparr>skipped := skipped (counts ?s1) + length videos\<rparr>"
    by blast
  have "forVideos L A q d f t (w # videos) s = Inr s'"
    unfolding forVideos.simps andThen_Inr using r1 rest by blast
  moreover have "counts s' = (counts s)\<lparr>skipped := skipped (counts s) + length (w # videos)\<rparr>"
    unfolding c' c1 by simp
  ultimately show ?case by blast
qed

lemma ledger_mono_downloadPoster:
  "ledger s x \<subseteq> ledger (downloadPoster L A d u stem label key s) x"
  by (auto simp add: downloadPoster_def state_ops Let_def split_beta split: option.splits)

lemma ledger_mono_downloadPosters: "ledger s x \<subseteq> ledger (downloadPosters L A d sh s) x"
  unfolding downloadPosters_def
  using ledger_mono_downloadPoster ledger_mono_downloadPoster by (rule subset_trans)

text \<open>A show-mode run on a state in which the directory of the show and its metadata file
  exist, and every video of the list is one that will be skipped with nothing to write:
  it completes, and every video is counted as skipped.\<close>

lemma quiet_downloadShow:
  assumes sh: "getShowInfo A (opt_show P) = Some sh" and videos: "getVideos A sh = Some videos"
      and dir: "existsSync s (showDirectory L dir sh)"
      and meta: "existsSync s (join L (showDirectory L dir sh) ''metadata.json'')"
      and quiet: "\<And>v. v \<in> set videos \<Longrightarrow>
         settled L (opt_quality P) (showDirectory L dir sh)
           (parseDate L (opt_from_date P)) (parseDate L (opt_to_date P)) s v \<and>
         documented L (showDirectory L dir sh)
           (parseDate L (opt_from_date P)) (parseDate L (opt_to_date P)) s v"
  shows "\<exists>s'. downloadShow L A P dir s = Inr s' \<and>
           counts s' = \<lparr>downloaded = 0, skipped = length videos, failed = 0\<rparr>"
proof -
  let ?d = "showDirectory L dir sh" and ?q = "opt_quality P"
  let ?f = "parseDate L (opt_from_date P)" and ?t = "parseDate L (opt_to_date P)"
  let ?s1 = "emit (ApiGetShowInfo (opt_show P)) s"
  let ?s2 = "downloadPosters L A ?d sh ?s1"
  let ?s3 = "(emit (ApiGetVideos sh) ?s2)\<lparr>counts := zero_counts\<rparr>"
  have g1: "guarded s ?s1" by (rule guarded_emit) simp
  have prep: "prepareShow L A ?d sh ?s1 = Inr ?s2"
    using guarded_exists[OF g1 dir] guarded_exists[OF g1 meta] by (rule prepareShow_exists)
  have "guarded s ?s2" using g1 guarded_downloadPosters by (rule guarded_trans)
  moreover have "guarded ?s2 (emit (ApiGetVideos sh) ?s2)" by (rule guarded_emit) simp
  ultimately have "guarded s (emit (ApiGetVideos sh) ?s2)" by (rule guarded_trans)
  then have g3: "guarded s ?s3" using guarded_counts by (rule guarded_trans)
  have l3: "ledger s ?d \<subseteq> ledger ?s3 ?d"
    using ledger_mono_downloadPosters[of ?s1 ?d L A ?d sh] by (simp add: emit_def)
  have "settled L ?q ?d ?f ?t ?s3 v \<and> documented L ?d ?f ?t ?s3 v" if "v \<in> set videos" for v
    using quiet[OF that] settled_mono[of L ?q ?d ?f ?t s v ?s3, OF _ l3]
      documented_mono[of L ?d ?f ?t s v ?s3, OF _ g3] by simp
  from quiet_forVideos[OF this] obtain s4 where
    loop: "forVideos L A ?q ?d ?f ?t videos ?s3 = Inr s4"
    and c4: "counts s4 = (counts ?s3)\<lparr>skipped := skipped (counts ?s3) + length videos\<rparr>"
    by blast
  have "downloadShow L A P dir s = Inr (emit (LoggerShowComplete (title sh) (counts s4)) s4)"
    unfolding downloadShow_Inr using sh videos prep loop by blast
  moreover have "counts (emit (LoggerShowComplete (title sh) (counts s4)) s4) =
      \<lparr>downloaded = 0, skipped = length videos, failed = 0\<rparr>"
    using c4 by (simp add: emit_def zero_counts_def)
  ultimately show ?thesis by blast
qed

text \<open>What the loop of identifier mode leaves in the trace and in the counters.\<close>

lemma forVideoIds_trace_facts:
  assumes "forVideoIds L A q d ids s = Inr s'"
  shows "lookups (since s s') = ids \<and>
         filter isDateSkip (since s s') = [] \<and>
         total (counts s') = total (counts s) + length ids"
  using assms
proof (induction ids arbitrary: s)
  case Nil
  then show ?case by (simp add: since_def)
next
  case (Cons i ids)
  let ?s1 = "emit (ApiGetVideoById i) s"
  have s1: "since s ?s1 = [ApiGetVideoById i]" by (simp add: since_def emit_def)
  have e1: "extends s ?s1" by (rule extendsI[of _ _ "[ApiGetVideoById i]"]) (simp add: emit_def)
  show ?case
  proof (cases "getVideoById A (now s) i")
    case None
    let ?s2 = "inc_failed ?s1"
    from Cons.prems None have rest: "forVideoIds L A q d ids ?s2 = Inr s'" by simp
    have s2: "since s ?s2 = [ApiGetVideoById i]" by (simp add: since_def emit_def inc_failed_def)
    have e2: "extends s ?s2"
      by (rule extendsI[of _ _ "[ApiGetVideoById i]"]) (simp add: emit_def inc_failed_def)
    have e3: "extends ?s2 s'" using extends_forVideoIds[of ?s2 L A q d ids] rest by simp
    have sp: "since s s' = [ApiGetVideoById i] @ since ?s2 s'"
      using since_trans[OF e2 e3] s2 by simp
    have tot: "total (counts ?s2) = Suc (total (counts s))"
      by (simp add: total_def emit_def inc_failed_def)
    from Cons.IH[OF rest] have
      "lookups (since ?s2 s') = ids" "filter isDateSkip (since ?s2 s') = []"
      "total (counts s') = total (counts ?s2) + length ids" by blast+
    then show ?thesis unfolding sp tot by (simp add: lookups_append)
  next
    case (Some v)
    from Cons.prems Some obtain s2 where dv: "downloadVideo L A q d v None None ?s1 = Inr s2"
      and rest: "forVideoIds L A q d ids s2 = Inr s'"
      by (auto simp add: andThen_Inr)
    from dv have s2f: "s2 = final (downloadVideo L A q d v None None ?s1)" by simp
    have e12: "extends ?s1 s2" unfolding s2f by (rule extends_downloadVideo)
    have e2: "extends s s2" using e1 e12 by (rule extends_trans)
    have e3: "extends s2 s'" using extends_forVideoIds[of s2 L A q d ids] rest by simp
    have s2: "since s s2 = [ApiGetVideoById i] @ since ?s1 s2"
      using since_trans[OF e1 e12] s1 by simp
    have sp: "since s s' = [ApiGetVideoById i] @ since ?s1 s2 @ since s2 s'"
      using since_trans[OF e2 e3] s2 by simp
    have tot: "total (counts s2) = Suc (total (counts s))"
      using total_downloadVideo[OF dv] by (simp add: emit_def)
    have quiet: "lookups (since ?s1 s2) = []" "filter isDateSkip (since ?s1 s2) = []"
      unfolding s2f by (simp_all add: lookups_downloadVideo dateSkip_downloadVideo)
    from Cons.IH[OF rest] have
      "lookups (since s2 s') = ids" "filter isDateSkip (since s2 s') = []"
      "total (counts s') = total (counts s2) + length ids" by blast+
    then show ?thesis unfolding sp tot using quiet by (simp add: lookups_append)
  qed
qed

lemma downloadVideosById_Inr:
  "downloadVideosById L A P dir s = Inr s' \<longleftrightarrow>
     (\<exists>ids s1. opt_video_id P = Some ids \<and>
        forVideoIds L A (opt_quality P) dir (split_comma ids) (s\<lparr>counts := zero_counts\<rparr>) = Inr s1 \<and>
        s' = emit (LoggerVideosComplete (length (split_comma ids)) (counts s1)) s1)"
  by (auto simp add: downloadVideosById_def andThen_Inr Let_def split: option.splits)

text \<open>When no call of the file system throws, the loop over the videos and the whole
  show-mode run return.\<close>

lemma forVideos_returns:
  assumes "\<And>n p. \<not> writeThrows L n p"
  shows "\<exists>s'. forVideos L A q d f t videos s = Inr s'"
proof (induction videos arbitrary: s)
  case Nil
  show ?case by simp
next
  case (Cons v videos)
  have "\<not> videoThrows L d v f t s"
    using assms by (simp add: videoThrows_def metadataThrows_def)
  then have "downloadVideo L A q d v f t s = Inr (final (downloadVideo L A q d v f t s))"
    using downloadVideo_result[of L A q d v f t s] by simp
  moreover from Cons.IH obtain s' where
    "forVideos L A q d f t videos (final (downloadVideo L A q d v f t s)) = Inr s'" by blast
  ultimately have "forVideos L A q d f t (v # videos) s = Inr s'"
    unfolding forVideos.simps andThen_Inr by blast
  then show ?case by blast
qed

lemma prepareShow_returns:
  assumes "\<And>n p. \<not> writeThrows L n p" and "\<And>n p. \<not> mkdirThrows L n p"
  shows "\<exists>s'. prepareShow L A d sh s = Inr s'"
  using assms
  by (simp add: prepareShow_def createDirectory_def writeShowMetadata_def mkdirSync_def
        writeFileSync_def)

lemma downloadShow_returns:
  assumes "\<And>n p. \<not> writeThrows L n p" and "\<And>n p. \<not> mkdirThrows L n p"
      and "getShowInfo A (opt_show P) = Some sh" and "getVideos A sh = Some videos"
  shows "\<exists>s'. downloadShow L A P dir s = Inr s'"
proof -
  from prepareShow_returns[OF assms(1,2)] obtain s2 where
    "prepareShow L A (showDirectory L dir sh) sh (emit (ApiGetShowInfo (opt_show P)) s) = Inr s2"
    by blast
  moreover from forVideos_returns[OF assms(1)] obtain s4 where
    "forVideos L A (opt_quality P) (showDirectory L dir sh)
          (parseDate L (opt_from_date P)) (parseDate L (opt_to_date P)) videos
          ((emit (ApiGetVideos sh) s2)\<lparr>counts := zero_counts\<rparr>) = Inr s4"
    by blast
  ultimately have "downloadShow L A P dir s = Inr (emit (LoggerShowComplete (title sh) (counts s4)) s4)"
    unfolding downloadShow_Inr using assms(3,4) by blast
  then show ?thesis by blast
qed

text \<open>After the metadata write has thrown, there is no metadata file.\<close>

lemma metadata_absent_afterMetadata:
  "metadataThrows L d v s \<Longrightarrow> \<not> existsSync (afterMetadata L d v s) (metadataPath L d v)"
  by (simp add: afterMetadata_def writeVideoMetadata_def writeFileSync_def metadataThrows_def
        state_ops)

lemma video_metadata_exists:
  assumes "\<not> bound_test f (isBefore_day (dayjs L (publish_date v)))"
      and "\<not> bound_test t (isAfter_day (dayjs L (publish_date v)))"
  shows "existsSync (final (downloadVideo L A q d v f t s)) (metadataPath L d v) \<longleftrightarrow>
           \<not> metadataThrows L d v s"
proof (cases "metadataThrows L d v s")
  case True
  with assms have "downloadVideo L A q d v f t s =
      Inl (Uncaught (metadataPath L d v), afterMetadata L d v s)"
    by (simp add: downloadVideo_def processVideo_def writeVideoMetadata_result)
  with True show ?thesis by (simp add: metadata_absent_afterMetadata)
next
  case False
  with assms have "downloadVideo L A q d v f t s = Inr (final (downloadVideo L A q d v f t s))"
    using downloadVideo_result[of L A q d v f t s] by (simp add: videoThrows_def)
  from documented_after_downloadVideo[OF this] assms False show ?thesis
    by (simp add: documented_def)
qed

lemma show_metadata_exists:
  assumes "downloadShow L A P dir s = Inr s'" and "getShowInfo A (opt_show P) = Some sh"
  shows "existsSync s' (join L (showDirectory L dir sh) ''metadata.json'')"
proof -
  let ?d = "showDirectory L dir sh"
  from assms obtain videos s2 s4 where
    prep: "prepareShow L A ?d sh (emit (ApiGetShowInfo (opt_show P)) s) = Inr s2"
    and loop: "forVideos L A (opt_quality P) ?d
          (parseDate L (opt_from_date P)) (parseDate L (opt_to_date P)) videos
          ((emit (ApiGetVideos sh) s2)\<lparr>counts := zero_counts\<rparr>) = Inr s4"
    and s': "s' = emit (LoggerShowComplete (title sh) (counts s4)) s4"
    unfolding downloadShow_Inr by auto
  let ?s3 = "(emit (ApiGetVideos sh) s2)\<lparr>counts := zero_counts\<rparr>"
  have "existsSync s2 (join L ?d ''metadata.json'')" using prepareShow_Inr[OF prep] by simp
  then have "existsSync ?s3 (join L ?d ''metadata.json'')" by (simp add: existsSync_def emit_def)
  moreover have "guarded ?s3 s4"
    using guarded_forVideos[of ?s3 L A "opt_quality P" ?d "parseDate L (opt_from_date P)"
        "parseDate L (opt_to_date P)" videos] loop by simp
  ultimately have "existsSync s4 (join L ?d ''metadata.json'')" by (simp add: guarded_def)
  then show ?thesis by (simp add: s' existsSync_def emit_def)
qed

text \<open>The exit of a per-video procedure that did not return is the uncaught exception of
  the metadata write, and the counters are as they were.\<close>

lemma counts_downloadVideo_Inl:
  assumes "downloadVideo L A q d v f t s = Inl (e, s')"
  shows "e = Uncaught (metadataPath L d v) \<and> counts s' = counts s \<and> ledger s' = ledger s \<and>
         since s s' = [LoggerDebug ''Writing metadata for video'',
                       FsWriteFile (metadataPath L d v) (JsonVideo v) False]"
proof -
  from assms have th: "videoThrows L d v f t s" and e: "e = Uncaught (metadataPath L d v)"
    and s': "s' = final (downloadVideo L A q d v f t s)"
    unfolding downloadVideo_Inl by simp_all
  from th have "counts s' = counts s" unfolding s' by (simp add: counts_downloadVideo)
  moreover from th have "since s s' = [LoggerDebug ''Writing metadata for video'',
                       FsWriteFile (metadataPath L d v) (JsonVideo v) False]"
    unfolding s' by (simp add: since_downloadVideo videoThrows_def metadataEvents_def
        metadataThrows_def)
  moreover from th have "s' = afterMetadata L d v s"
    unfolding s' by (simp add: downloadVideo_def processVideo_def writeVideoMetadata_result
        videoThrows_def)
  then have "ledger s' = ledger s" by (simp add: ledger_afterMetadata)
  ultimately show ?thesis using e by simp
qed

text \<open>The probe and the download of the video file, tied to the answers of the API at the
  times of the two calls.\<close>

lemma fetch_trace:
  assumes "fromVideoDownload (since s (final (downloadVideo L A q d v f t s))) \<noteq> []"
  shows "\<exists>u. urlToDownload q v = Some u \<and> u \<noteq> [] \<and>
           fromVideoDownload (since s (final (downloadVideo L A q d v f t s))) =
             fetchEvents L A q d v u (downloadVideoImage L A d v (afterMetadata L d v s)) \<and>
           announcedAt s (final (downloadVideo L A q d v f t s)) =
             now (downloadVideoImage L A d v (afterMetadata L d v s))"
proof -
  from assms obtain u where u: "urlToDownload q v = Some u" "u \<noteq> []"
    by (auto simp add: fromVideoDownload_since truthy_def split: if_splits option.splits)
  with assms have "fromVideoDownload (since s (final (downloadVideo L A q d v f t s))) =
      fetchEvents L A q d v u (downloadVideoImage L A d v (afterMetadata L d v s))"
    by (simp add: fromVideoDownload_since split: if_splits)
  moreover from fetch_position[OF assms]
  have "announcedAt s (final (downloadVideo L A q d v f t s)) =
      now (downloadVideoImage L A d v (afterMetadata L d v s))"
    by (simp add: announcedAt_def)
  ultimately show ?thesis using u by blast
qed

lemma fetchEvents_answers:
  "fetchEvents L A q d v u s =
     (let probed = (q = QUALITY_HIGHEST \<and> hd_url v = Some u);
          e = checkIfExists A (now s + 2) (replace_8000 u);
          url = (if probed \<and> e then replace_8000 u else u);
          ok = downloadFile A (if probed then if e then now s + 4 else now s + 3 else now s + 1)
                 url (join L d (videoFilename L v u))
      in LoggerVideoDownload (name v) (videoFilename L v u) #
         (if probed
          then [LoggerDebug ''Checking if 8k bitrate video exists'',
                ApiCheckIfExists (replace_8000 u) e] @
               (if e then [LoggerDebug ''Found 8k bitrate video, downloading that''] else [])
          else []) @
         [ApiDownloadFile url (join L d (videoFilename L v u)) ok] @
         (if ok then [TrackerMarkDownloaded d (video_id v)] else []))"
  by (simp add: fetchEvents_def probeEvents_def fetchedUrl_def fetchSuccess_def announced_def
        emit_def now_def Let_def eval_nat_numeral)

lemma fetchEvents_plain:
  assumes "\<not> (q = QUALITY_HIGHEST \<and> hd_url v = Some u)"
  shows "fetchEvents L A q d v u s =
     [LoggerVideoDownload (name v) (videoFilename L v u),
      ApiDownloadFile u (join L d (videoFilename L v u))
        (downloadFile A (now s + 1) u (join L d (videoFilename L v u)))] @
     (if downloadFile A (now s + 1) u (join L d (videoFilename L v u))
      then [TrackerMarkDownloaded d (video_id v)] else [])"
  using assms
  by (auto simp add: fetchEvents_def probeEvents_def fetchedUrl_def fetchSuccess_def
        announced_def emit_def now_def)

lemma probe_answer_in_since:
  assumes "ApiCheckIfExists x b \<in> set (since s (final (downloadVideo L A q d v f t s)))"
  shows "b = checkIfExists A (announcedAt s (final (downloadVideo L A q d v f t s)) + 2) x"
proof (cases rule: downloadVideo_cases[where L=L and A=A and q=q and d=d and v=v and f=f and t=t and s=s])
  case before
  show ?thesis using assms before(1) by (simp add: since_downloadVideo)
next
  case after
  show ?thesis using assms after(1,2) by (simp add: since_downloadVideo)
next
  case threw
  show ?thesis using assms threw(1-3)
    by (simp add: since_downloadVideo probe_in_metadataEvents)
next
  case tracked
  show ?thesis using assms tracked(1-4)
    by (simp add: since_downloadVideo probe_in_metadataEvents probe_in_imageEvents)
next
  case no_url
  show ?thesis using assms no_url(1-5)
    by (simp add: since_downloadVideo probe_in_metadataEvents probe_in_imageEvents)
next
  case (fetch u)
  let ?s2 = "downloadVideoImage L A d v (afterMetadata L d v s)"
  have "fromVideoDownload (since s (final (downloadVideo L A q d v f t s))) =
      fetchEvents L A q d v u ?s2"
    using fetch(1-6) by (simp add: fromVideoDownload_since truthy_def)
  then have "fromVideoDownload (since s (final (downloadVideo L A q d v f t s))) \<noteq> []"
    by (simp add: fetchEvents_def)
  from fetch_position[OF this]
  have k: "announcedAt s (final (downloadVideo L A q d v f t s)) = now ?s2"
    by (simp add: announcedAt_def)
  from assms fetch(1-6) have "b = checkIfExists A (Suc (Suc (now ?s2))) x"
    by (simp add: since_downloadVideo probe_in_metadataEvents probe_in_imageEvents
          probe_in_fetchEvents truthy_def)
  with k show ?thesis by simp
qed

section \<open>The example runs\<close>

lemmas video_steps = downloadVideo_def processVideo_def downloadUntracked_def fetchVideo_def
  checkHighest_def downloadVideoImage_def writeVideoMetadata_def writeFileSync_def
  bound_test_def filename_def metadataPath_def imagePath_def videoFilename_def
  urlToDownload_def truthy_def or_else_def and_then_def

lemmas show_steps = downloadShow_def prepareShow_def createDirectory_def downloadPosters_def
  downloadShowVideos_def showDirectory_def writeShowMetadata_def mkdirSync_def
  downloadPoster_def parseDate_def

lemmas ex_lib_steps = ex_lib_def ex_sanitize_def ex_extname_def ex_join_def ex_dayjs_def
  ex_nameTooLong_def ex_basename_def

lemma ex_run_trace:
  "since ex_state (final (downloadVideo ex_lib (ex_api True) QUALITY_HIGHEST ''/dl'' ex_video None None ex_state)) =
    [LoggerDebug ''Writing metadata for video'',
     FsWriteFile ''/dl/2022-05-17 13_00_00 - Quick Look_ A_B.metadata.json'' (JsonVideo ex_video) True,
     LoggerPosterDownload ''video image'' ''/dl/2022-05-17 13_00_00 - Quick Look_ A_B.jpg'',
     ApiDownloadFile ''https://img.example/qa.jpg'' ''/dl/2022-05-17 13_00_00 - Quick Look_ A_B.jpg'' True,
     TrackerMarkDownloaded ''/dl'' ''4242_image'',
     LoggerVideoDownload ''Quick Look: A/B'' ''2022-05-17 - Quick Look: A/B.mp4'',
     LoggerDebug ''Checking if 8k bitrate video exists'',
     ApiCheckIfExists ''https://v.example/foo_8000.mp4'' True,
     LoggerDebug ''Found 8k bitrate video, downloading that'',
     ApiDownloadFile ''https://v.example/foo_8000.mp4'' ''/dl/2022-05-17 - Quick Look: A/B.mp4'' True,
     TrackerMarkDownloaded ''/dl'' ''4242'']"
  by (simp add: video_steps state_ops since_def Let_def split_beta replace_8000_def is_digit_def
        ex_lib_steps ex_api_def ex_state_def ex_video_def)

lemma ex_run_trace_no8k:
  "since ex_state (final (downloadVideo ex_lib ex_api_no8k QUALITY_HIGHEST ''/dl'' ex_video None None ex_state)) =
    [LoggerDebug ''Writing metadata for video'',
     FsWriteFile ''/dl/2022-05-17 13_00_00 - Quick Look_ A_B.metadata.json'' (JsonVideo ex_video) True,
     LoggerPosterDownload ''video image'' ''/dl/2022-05-17 13_00_00 - Quick Look_ A_B.jpg'',
     ApiDownloadFile ''https://img.example/qa.jpg'' ''/dl/2022-05-17 13_00_00 - Quick Look_ A_B.jpg'' True,
     TrackerMarkDownloaded ''/dl'' ''4242_image'',
     LoggerVideoDownload ''Quick Look: A/B'' ''2022-05-17 - Quick Look: A/B.mp4'',
     LoggerDebug ''Checking if 8k bitrate video exists'',
     ApiCheckIfExists ''https://v.example/foo_8000.mp4'' False,
     ApiDownloadFile ''https://v.example/foo_3500.mp4'' ''/dl/2022-05-17 - Quick Look: A/B.mp4'' True,
     TrackerMarkDownloaded ''/dl'' ''4242'']"
  by (simp add: video_steps state_ops since_def Let_def split_beta replace_8000_def is_digit_def
        ex_lib_steps ex_api_no8k_def ex_api_def ex_state_def ex_video_def)

lemma ex_run_trace_low:
  "since ex_state (final (downloadVideo ex_lib (ex_api True) QUALITY_LOW ''/dl'' ex_video None None ex_state)) =
    [LoggerDebug ''Writing metadata for video'',
     FsWriteFile ''/dl/2022-05-17 13_00_00 - Quick Look_ A_B.metadata.json'' (JsonVideo ex_video) True,
     LoggerPosterDownload ''video image'' ''/dl/2022-05-17 13_00_00 - Quick Look_ A_B.jpg'',
     ApiDownloadFile ''https://img.example/qa.jpg'' ''/dl/2022-05-17 13_00_00 - Quick Look_ A_B.jpg'' True,
     TrackerMarkDownloaded ''/dl'' ''4242_image'',
     LoggerVideoDownload ''Quick Look: A/B'' ''2022-05-17 - Quick Look: A/B.mp4'',
     ApiDownloadFile ''https://v.example/foo_1800.mp4'' ''/dl/2022-05-17 - Quick Look: A/B.mp4'' True,
     TrackerMarkDownloaded ''/dl'' ''4242'']"
  by (simp add: video_steps state_ops since_def Let_def split_beta
        ex_lib_steps ex_api_def ex_state_def ex_video_def)

lemma ex_run_trace_fail:
  "since ex_state (final (downloadVideo ex_lib (ex_api False) QUALITY_HIGHEST ''/dl'' ex_video None None ex_state)) =
    [LoggerDebug ''Writing metadata for video'',
     FsWriteFile ''/dl/2022-05-17 13_00_00 - Quick Look_ A_B.metadata.json'' (JsonVideo ex_video) True,
     LoggerPosterDownload ''video image'' ''/dl/2022-05-17 13_00_00 - Quick Look_ A_B.jpg'',
     ApiDownloadFile ''https://img.example/qa.jpg'' ''/dl/2022-05-17 13_00_00 - Quick Look_ A_B.jpg'' False,
     LoggerVideoDownload ''Quick Look: A/B'' ''2022-05-17 - Quick Look: A/B.mp4'',
     LoggerDebug ''Checking if 8k bitrate video exists'',
     ApiCheckIfExists ''https://v.example/foo_8000.mp4'' True,
     LoggerDebug ''Found 8k bitrate video, downloading that'',
     ApiDownloadFile ''https://v.example/foo_8000.mp4'' ''/dl/2022-05-17 - Quick Look: A/B.mp4'' False]"
  by (simp add: video_steps state_ops since_def Let_def split_beta replace_8000_def is_digit_def
        ex_lib_steps ex_api_def ex_state_def ex_video_def)

lemma ex_run_returns:
  "downloadVideo ex_lib A q ''/dl'' ex_video None None ex_state =
     Inr (final (downloadVideo ex_lib A q ''/dl'' ex_video None None ex_state))"
  unfolding downloadVideo_Inr
  by (simp add: videoThrows_def metadataThrows_def bound_test_def metadataPath_def filename_def
        state_ops ex_lib_steps ex_state_def ex_video_def)

lemma ex_show_run_counts:
  "map_sum id counts (downloadShow ex_lib (ex_api True) ex_program ''/dl'' ex_state) =
     Inr \<lparr>downloaded = 1, skipped = 0, failed = 0\<rparr>"
  by (simp add: show_steps video_steps state_ops Let_def split_beta replace_8000_def is_digit_def
        ex_lib_steps ex_api_def ex_state_def ex_video_def ex_show_def ex_program_def zero_counts_def)

lemma ex_ids_run:
  "map_sum id (\<lambda>s. (counts s, lookups (trace s)))
      (downloadVideosById ex_lib (ex_api True) ex_ids_program ''/dl'' ex_state) =
     Inr (\<lparr>downloaded = 1, skipped = 0, failed = 1\<rparr>, [''4242'', ''9999''])"
  by (simp add: downloadVideosById_def video_steps state_ops Let_def split_beta
        ex_lib_steps ex_api_def ex_state_def ex_video_def ex_ids_program_def zero_counts_def)

lemma ex_old_metadata_run:
  "since ex_old_metadata
      (final (downloadVideo ex_lib (ex_api True) QUALITY_LOW ''/dl'' ex_video None None ex_old_metadata)) =
     [LoggerPosterDownload ''video image'' ''/dl/2022-05-17 13_00_00 - Quick Look_ A_B.jpg'',
      ApiDownloadFile ''https://img.example/qa.jpg'' ''/dl/2022-05-17 13_00_00 - Quick Look_ A_B.jpg'' True,
      TrackerMarkDownloaded ''/dl'' ''4242_image'',
      LoggerVideoDownload ''Quick Look: A/B'' ''2022-05-17 - Quick Look: A/B.mp4'',
      ApiDownloadFile ''https://v.example/foo_1800.mp4'' ''/dl/2022-05-17 - Quick Look: A/B.mp4'' True,
      TrackerMarkDownloaded ''/dl'' ''4242'']"
  by (simp add: video_steps state_ops since_def Let_def split_beta
        ex_old_metadata_def ex_lib_steps ex_api_def ex_state_def ex_video_def)

text \<open>The example video under its long title: the name of its metadata file has 269
  characters, and the write of that file throws.\<close>

lemma ex_basename_join:
  assumes "CHR ''/'' \<notin> set n"
  shows "ex_basename (ex_join d n) = n"
proof -
  have "takeWhile (\<lambda>c. c \<noteq> CHR ''/'') (rev n @ CHR ''/'' # rev d) =
      rev n @ takeWhile (\<lambda>c. c \<noteq> CHR ''/'') (CHR ''/'' # rev d)"
    using assms by (intro takeWhile_append2) auto
  then show ?thesis by (simp add: ex_basename_def ex_join_def)
qed

lemma ex_sanitize_no_slash: "CHR ''/'' \<notin> set (ex_sanitize x)"
  by (auto simp add: ex_sanitize_def dest!: in_set_takeD)

lemma length_ex_sanitize: "length (ex_sanitize x) = min (length x) 255"
  by (simp add: ex_sanitize_def)

lemma ex_long_video_throws:
  "metadataThrows ex_lib ''/dl'' ex_long_video ex_state"
proof -
  have "CHR ''/'' \<notin> set (ex_sanitize x @ ''.metadata.json'')" for x
    using ex_sanitize_no_slash[of x] by simp
  then have "ex_basename (ex_join ''/dl'' (ex_sanitize x @ ''.metadata.json'')) =
      ex_sanitize x @ ''.metadata.json''" for x
    by (rule ex_basename_join)
  then have "ex_nameTooLong n (metadataPath ex_lib ''/dl'' ex_long_video)" for n
    by (simp add: ex_nameTooLong_def metadataPath_def filename_def ex_lib_def length_ex_sanitize
          ex_long_video_def ex_video_def)
  then show ?thesis
    by (simp add: metadataThrows_def existsSync_def metadataPath_def ex_join_def ex_lib_def
          ex_state_def)
qed

section \<open>Quality resolution\<close>

text \<open>
  Claim C4. The URL chosen for a quality follows a fixed fallback order: for \<open>low\<close> it
  is the low URL whatever else exists; for \<open>high\<close> the high URL if present, else the low
  one; for \<open>hd\<close>, and for \<open>highest\<close> before the probe, the hd URL if present, else
  high, else low. So \<open>hd\<close> on a video with only a low URL yields the low URL, and
  \<open>low\<close> yields the low URL whatever the hd URL is. Present means truthy.
\<close>

theorem urlToDownload_fallback_order:
  "urlToDownload QUALITY_LOW v = low_url v \<and>
   urlToDownload QUALITY_HIGH v = (if truthy (high_url v) then high_url v else low_url v) \<and>
   urlToDownload QUALITY_HD v =
     (if truthy (hd_url v) then hd_url v
      else if truthy (high_url v) then high_url v else low_url v) \<and>
   urlToDownload QUALITY_HIGHEST v = urlToDownload QUALITY_HD v \<and>
   urlToDownload QUALITY_HD (v\<lparr>hd_url := None, high_url := None\<rparr>) = low_url v \<and>
   urlToDownload QUALITY_LOW (v\<lparr>hd_url := h\<rparr>) = low_url v"
  by (simp add: urlToDownload_def or_else_def and_then_def truthy_def)

section \<open>Date filter\<close>

text \<open>
  Claim C5. The bounds of the date filter are inclusive at day granularity: the
  per-video procedure returns at the date filter exactly when the publish date lies
  strictly before \<open>fromDate\<close> or strictly after \<open>toDate\<close>, by calendar day; otherwise it
  goes on to the download processing. A video published on the day of \<open>fromDate\<close>, or on
  the day of \<open>toDate\<close>, goes on (unless the other bound excludes it).
\<close>

theorem date_filter_inclusive:
  "downloadVideo L A q d v f t s =
     (if strictlyBefore (dayjs L (publish_date v)) f
      then Inr (emit (LoggerEpisodeSkipBeforeDate (name v) (dayjs L (publish_date v)) f)
                  (inc_skipped s))
      else if strictlyAfter (dayjs L (publish_date v)) t
      then Inr (emit (LoggerEpisodeSkipAfterDate (name v) (dayjs L (publish_date v)) t)
                  (inc_skipped s))
      else processVideo L A q d v s) \<and>
   (dayjs L (publish_date v) = Instant a \<and> f = Some (Instant b) \<and> day_of a = day_of b \<and>
      \<not> strictlyAfter (Instant a) t \<longrightarrow>
      downloadVideo L A q d v f t s = processVideo L A q d v s) \<and>
   (dayjs L (publish_date v) = Instant a \<and> t = Some (Instant b) \<and> day_of a = day_of b \<and>
      \<not> strictlyBefore (Instant a) f \<longrightarrow>
      downloadVideo L A q d v f t s = processVideo L A q d v s)"
  by (simp add: downloadVideo_def before_iff after_iff)

text \<open>The example video, published on 2022-05-17 at 13:00: with both bounds on that day
  it is processed; with \<open>fromDate\<close> on the next day it is skipped.\<close>

theorem date_filter_inclusive_witness:
  "downloadVideo ex_lib (ex_api True) QUALITY_HD ''/dl'' ex_video
     (Some (ex_dayjs ''2022-05-17'')) (Some (ex_dayjs ''2022-05-17'')) ex_state =
   processVideo ex_lib (ex_api True) QUALITY_HD ''/dl'' ex_video ex_state \<and>
   downloadVideo ex_lib (ex_api True) QUALITY_HD ''/dl'' ex_video
     (Some (ex_dayjs ''2022-05-18'')) None ex_state =
   Inr (emit (LoggerEpisodeSkipBeforeDate ''Quick Look: A/B'' (Instant 1652792400000)
           (Some (Instant 1652832000000))) (inc_skipped ex_state))"
  using date_filter_inclusive[of ex_lib "ex_api True" QUALITY_HD "''/dl''" ex_video
          "Some (ex_dayjs ''2022-05-17'')" "Some (ex_dayjs ''2022-05-17'')" ex_state
          "19129 * 86400000 + 46800000" "19129 * 86400000"]
        date_filter_inclusive[of ex_lib "ex_api True" QUALITY_HD "''/dl''" ex_video
          "Some (ex_dayjs ''2022-05-18'')" None ex_state 0 0]
  by (simp add: ex_lib_def ex_video_def ex_dayjs_def day_of_def ms_per_day_def)

section \<open>Probe and upgrade\<close>

text \<open>
  Claim C2. When the requested quality is \<open>highest\<close> and the resolved URL is the hd URL
  of the video, the procedure derives a URL by replacing the four-digit bitrate token
  before \<open>.mp4\<close> by \<open>8000\<close>, probes it, and fetches the derived URL when the probe
  succeeds and the hd URL when it does not. The probe runs only under those two
  conditions; in every other case the resolved URL is fetched without a probe. The
  answer recorded for the probe is the answer of \<open>checkIfExists\<close> for the derived URL
  at the time of the call, two calls after the announcement, and the outcome recorded for
  the download is that of \<open>downloadFile\<close> for the URL fetched, at the time of that call.
  The trace is read from the announcement of the video download on; it is empty when no
  download was announced.
\<close>

theorem probe_and_upgrade:
  "(ApiCheckIfExists x b \<in> set (since s (final (downloadVideo L A q d v f t s))) \<longrightarrow>
      q = QUALITY_HIGHEST \<and> truthy (hd_url v) \<and> urlToDownload q v = hd_url v \<and>
      map_option replace_8000 (hd_url v) = Some x \<and>
      b = checkIfExists A (announcedAt s (final (downloadVideo L A q d v f t s)) + 2) x) \<and>
   (q = QUALITY_HIGHEST \<and> hd_url v = Some h \<and> h \<noteq> [] \<and>
    fromVideoDownload (since s (final (downloadVideo L A q d v f t s))) \<noteq> [] \<longrightarrow>
      (let k = announcedAt s (final (downloadVideo L A q d v f t s));
           e = checkIfExists A (k + 2) (replace_8000 h);
           url = (if e then replace_8000 h else h);
           ok = downloadFile A (if e then k + 4 else k + 3) url (join L d (videoFilename L v h))
       in fromVideoDownload (since s (final (downloadVideo L A q d v f t s))) =
            [LoggerVideoDownload (name v) (videoFilename L v h),
             LoggerDebug ''Checking if 8k bitrate video exists'',
             ApiCheckIfExists (replace_8000 h) e] @
            (if e then [LoggerDebug ''Found 8k bitrate video, downloading that''] else []) @
            [ApiDownloadFile url (join L d (videoFilename L v h)) ok] @
            (if ok then [TrackerMarkDownloaded d (video_id v)] else []))) \<and>
   (\<not> (q = QUALITY_HIGHEST \<and> truthy (hd_url v)) \<and>
    fromVideoDownload (since s (final (downloadVideo L A q d v f t s))) \<noteq> [] \<longrightarrow>
      (\<exists>u. urlToDownload q v = Some u \<and>
         (let k = announcedAt s (final (downloadVideo L A q d v f t s));
              ok = downloadFile A (k + 1) u (join L d (videoFilename L v u))
          in fromVideoDownload (since s (final (downloadVideo L A q d v f t s))) =
               [LoggerVideoDownload (name v) (videoFilename L v u),
                ApiDownloadFile u (join L d (videoFilename L v u)) ok] @
               (if ok then [TrackerMarkDownloaded d (video_id v)] else [])))) \<and>
   (is_digit da \<and> is_digit db \<and> is_digit dc \<and> is_digit dd \<longrightarrow>
      replace_8000 (p @ CHR ''_'' # da # db # dc # dd # ''.mp4'') = p @ ''_8000.mp4'')"
proof (intro conjI impI)
  assume pr: "ApiCheckIfExists x b \<in> set (since s (final (downloadVideo L A q d v f t s)))"
  from probe_in_since[OF pr]
  show "q = QUALITY_HIGHEST" "truthy (hd_url v)" "urlToDownload q v = hd_url v"
    "map_option replace_8000 (hd_url v) = Some x"
    by blast+
  from pr show "b = checkIfExists A (announcedAt s (final (downloadVideo L A q d v f t s)) + 2) x"
    by (rule probe_answer_in_since)
next
  let ?s2 = "downloadVideoImage L A d v (afterMetadata L d v s)"
  assume a: "q = QUALITY_HIGHEST \<and> hd_url v = Some h \<and> h \<noteq> [] \<and>
    fromVideoDownload (since s (final (downloadVideo L A q d v f t s))) \<noteq> []"
  then have u: "urlToDownload q v = Some h"
    by (simp add: urlToDownload_def or_else_def and_then_def truthy_def)
  from a have "fromVideoDownload (since s (final (downloadVideo L A q d v f t s))) \<noteq> []"
    by blast
  from fetch_trace[OF this] u
  have fe: "fromVideoDownload (since s (final (downloadVideo L A q d v f t s))) =
      fetchEvents L A q d v h ?s2"
    and k: "announcedAt s (final (downloadVideo L A q d v f t s)) = now ?s2"
    by auto
  from a show "let k = announcedAt s (final (downloadVideo L A q d v f t s));
           e = checkIfExists A (k + 2) (replace_8000 h);
           url = (if e then replace_8000 h else h);
           ok = downloadFile A (if e then k + 4 else k + 3) url (join L d (videoFilename L v h))
       in fromVideoDownload (since s (final (downloadVideo L A q d v f t s))) =
            [LoggerVideoDownload (name v) (videoFilename L v h),
             LoggerDebug ''Checking if 8k bitrate video exists'',
             ApiCheckIfExists (replace_8000 h) e] @
            (if e then [LoggerDebug ''Found 8k bitrate video, downloading that''] else []) @
            [ApiDownloadFile url (join L d (videoFilename L v h)) ok] @
            (if ok then [TrackerMarkDownloaded d (video_id v)] else [])"
    unfolding fe k by (simp add: fetchEvents_answers Let_def)
next
  let ?s2 = "downloadVideoImage L A d v (afterMetadata L d v s)"
  assume a: "\<not> (q = QUALITY_HIGHEST \<and> truthy (hd_url v)) \<and>
    fromVideoDownload (since s (final (downloadVideo L A q d v f t s))) \<noteq> []"
  then have "fromVideoDownload (since s (final (downloadVideo L A q d v f t s))) \<noteq> []"
    by blast
  from fetch_trace[OF this] obtain u where u: "urlToDownload q v = Some u" "u \<noteq> []"
    and fe: "fromVideoDownload (since s (final (downloadVideo L A q d v f t s))) =
      fetchEvents L A q d v u ?s2"
    and k: "announcedAt s (final (downloadVideo L A q d v f t s)) = now ?s2"
    by blast
  have np: "\<not> (q = QUALITY_HIGHEST \<and> hd_url v = Some u)"
    using a u by (auto simp: truthy_def)
  have "let k = announcedAt s (final (downloadVideo L A q d v f t s));
              ok = downloadFile A (k + 1) u (join L d (videoFilename L v u))
          in fromVideoDownload (since s (final (downloadVideo L A q d v f t s))) =
               [LoggerVideoDownload (name v) (videoFilename L v u),
                ApiDownloadFile u (join L d (videoFilename L v u)) ok] @
               (if ok then [TrackerMarkDownloaded d (video_id v)] else [])"
    unfolding fe k by (simp add: fetchEvents_plain[OF np] Let_def)
  with u show "\<exists>u. urlToDownload q v = Some u \<and>
         (let k = announcedAt s (final (downloadVideo L A q d v f t s));
              ok = downloadFile A (k + 1) u (join L d (videoFilename L v u))
          in fromVideoDownload (since s (final (downloadVideo L A q d v f t s))) =
               [LoggerVideoDownload (name v) (videoFilename L v u),
                ApiDownloadFile u (join L d (videoFilename L v u)) ok] @
               (if ok then [TrackerMarkDownloaded d (video_id v)] else []))"
    by blast
next
  assume "is_digit da \<and> is_digit db \<and> is_digit dc \<and> is_digit dd"
  then show "replace_8000 (p @ CHR ''_'' # da # db # dc # dd # ''.mp4'') = p @ ''_8000.mp4''"
    by (simp add: replace_8000_bitrate)
qed

text \<open>The example video has the hd URL \<open>foo_3500.mp4\<close>. With \<open>highest\<close>, when the probe
  of \<open>foo_8000.mp4\<close> succeeds the file fetched is \<open>foo_8000.mp4\<close>, and when the probe
  fails it is \<open>foo_3500.mp4\<close>; with \<open>low\<close> there is no probe and the low URL is
  fetched.\<close>

theorem probe_and_upgrade_witness:
  "fromVideoDownload (since ex_state
      (final (downloadVideo ex_lib (ex_api True) QUALITY_HIGHEST ''/dl'' ex_video None None ex_state))) =
     [LoggerVideoDownload ''Quick Look: A/B'' ''2022-05-17 - Quick Look: A/B.mp4'',
      LoggerDebug ''Checking if 8k bitrate video exists'',
      ApiCheckIfExists ''https://v.example/foo_8000.mp4'' True,
      LoggerDebug ''Found 8k bitrate video, downloading that'',
      ApiDownloadFile ''https://v.example/foo_8000.mp4'' ''/dl/2022-05-17 - Quick Look: A/B.mp4'' True,
      TrackerMarkDownloaded ''/dl'' ''4242''] \<and>
   fromVideoDownload (since ex_state
      (final (downloadVideo ex_lib ex_api_no8k QUALITY_HIGHEST ''/dl'' ex_video None None ex_state))) =
     [LoggerVideoDownload ''Quick Look: A/B'' ''2022-05-17 - Quick Look: A/B.mp4'',
      LoggerDebug ''Checking if 8k bitrate video exists'',
      ApiCheckIfExists ''https://v.example/foo_8000.mp4'' False,
      ApiDownloadFile ''https://v.example/foo_3500.mp4'' ''/dl/2022-05-17 - Quick Look: A/B.mp4'' True,
      TrackerMarkDownloaded ''/dl'' ''4242''] \<and>
   checkIfExists ex_api_no8k 7 ''https://v.example/foo_8000.mp4'' = False \<and>
   replace_8000 ''https://v.example/foo_3500.mp4'' = ''https://v.example/foo_8000.mp4'' \<and>
   urlToDownload QUALITY_LOW ex_video = Some ''https://v.example/foo_1800.mp4'' \<and>
   fromVideoDownload (since ex_state
      (final (downloadVideo ex_lib (ex_api True) QUALITY_LOW ''/dl'' ex_video None None ex_state))) =
     [LoggerVideoDownload ''Quick Look: A/B'' ''2022-05-17 - Quick Look: A/B.mp4'',
      ApiDownloadFile ''https://v.example/foo_1800.mp4'' ''/dl/2022-05-17 - Quick Look: A/B.mp4'' True,
      TrackerMarkDownloaded ''/dl'' ''4242'']"
proof -
  let ?run = "since ex_state
      (final (downloadVideo ex_lib (ex_api True) QUALITY_HIGHEST ''/dl'' ex_video None None ex_state))"
  let ?no8k = "since ex_state
      (final (downloadVideo ex_lib ex_api_no8k QUALITY_HIGHEST ''/dl'' ex_video None None ex_state))"
  let ?low = "since ex_state
      (final (downloadVideo ex_lib (ex_api True) QUALITY_LOW ''/dl'' ex_video None None ex_state))"
  note inst = probe_and_upgrade[where s=ex_state and L=ex_lib
          and d="''/dl''" and v=ex_video and f=None and t=None
          and x="''https://v.example/foo_8000.mp4''"
          and h="''https://v.example/foo_3500.mp4''" and p="''https://v.example/foo''"
          and da="CHR ''3''" and db="CHR ''5''" and dc="CHR ''0''" and dd="CHR ''0''"]
  have hd: "hd_url ex_video = Some ''https://v.example/foo_3500.mp4''"
    by (simp add: ex_video_def)
  have hyp2: "QUALITY_HIGHEST = QUALITY_HIGHEST \<and>
      hd_url ex_video = Some ''https://v.example/foo_3500.mp4'' \<and>
      ''https://v.example/foo_3500.mp4'' \<noteq> [] \<and> fromVideoDownload ?run \<noteq> []"
    by (simp add: ex_run_trace fromVideoDownload_def hd)
  have tr: "fromVideoDownload ?run =
     [LoggerVideoDownload ''Quick Look: A/B'' ''2022-05-17 - Quick Look: A/B.mp4'',
      LoggerDebug ''Checking if 8k bitrate video exists'',
      ApiCheckIfExists ''https://v.example/foo_8000.mp4'' True,
      LoggerDebug ''Found 8k bitrate video, downloading that'',
      ApiDownloadFile ''https://v.example/foo_8000.mp4'' ''/dl/2022-05-17 - Quick Look: A/B.mp4'' True,
      TrackerMarkDownloaded ''/dl'' ''4242'']"
    using inst[where A="ex_api True" and q=QUALITY_HIGHEST, THEN conjunct2, THEN conjunct1,
        rule_format, OF hyp2]
    by (simp add: Let_def replace_8000_def is_digit_def videoFilename_def ex_api_def ex_lib_def
          ex_extname_def ex_join_def ex_video_def)
  have hyp2': "QUALITY_HIGHEST = QUALITY_HIGHEST \<and>
      hd_url ex_video = Some ''https://v.example/foo_3500.mp4'' \<and>
      ''https://v.example/foo_3500.mp4'' \<noteq> [] \<and> fromVideoDownload ?no8k \<noteq> []"
    by (simp add: ex_run_trace_no8k fromVideoDownload_def hd)
  have tr': "fromVideoDownload ?no8k =
     [LoggerVideoDownload ''Quick Look: A/B'' ''2022-05-17 - Quick Look: A/B.mp4'',
      LoggerDebug ''Checking if 8k bitrate video exists'',
      ApiCheckIfExists ''https://v.example/foo_8000.mp4'' False,
      ApiDownloadFile ''https://v.example/foo_3500.mp4'' ''/dl/2022-05-17 - Quick Look: A/B.mp4'' True,
      TrackerMarkDownloaded ''/dl'' ''4242'']"
    using inst[where A=ex_api_no8k and q=QUALITY_HIGHEST, THEN conjunct2, THEN conjunct1,
        rule_format, OF hyp2']
    by (simp add: Let_def replace_8000_def is_digit_def videoFilename_def ex_api_no8k_def
          ex_api_def ex_lib_def ex_extname_def ex_join_def ex_video_def)
  have probe: "ApiCheckIfExists ''https://v.example/foo_8000.mp4'' False \<in> set ?no8k"
    by (simp add: ex_run_trace_no8k)
  have at: "announcedAt ex_state
      (final (downloadVideo ex_lib ex_api_no8k QUALITY_HIGHEST ''/dl'' ex_video None None ex_state)) = 5"
    by (simp add: announcedAt_def trace_downloadVideo ex_run_trace_no8k fromVideoDownload_def)
       (simp add: ex_state_def)
  have "map_option replace_8000 (hd_url ex_video) = Some ''https://v.example/foo_8000.mp4'' \<and>
      False = checkIfExists ex_api_no8k (announcedAt ex_state
        (final (downloadVideo ex_lib ex_api_no8k QUALITY_HIGHEST ''/dl'' ex_video None None ex_state)) + 2)
        ''https://v.example/foo_8000.mp4''"
    using inst[where A=ex_api_no8k and q=QUALITY_HIGHEST and b=False] probe by blast
  then have r: "replace_8000 ''https://v.example/foo_3500.mp4'' = ''https://v.example/foo_8000.mp4''"
    and ans: "checkIfExists ex_api_no8k 7 ''https://v.example/foo_8000.mp4'' = False"
    by (simp_all add: hd at)
  have hyp3: "\<not> (QUALITY_LOW = QUALITY_HIGHEST \<and> truthy (hd_url ex_video)) \<and>
      fromVideoDownload ?low \<noteq> []"
    by (simp add: ex_run_trace_low fromVideoDownload_def)
  have low: "fromVideoDownload ?low =
     [LoggerVideoDownload ''Quick Look: A/B'' ''2022-05-17 - Quick Look: A/B.mp4'',
      ApiDownloadFile ''https://v.example/foo_1800.mp4'' ''/dl/2022-05-17 - Quick Look: A/B.mp4'' True,
      TrackerMarkDownloaded ''/dl'' ''4242'']"
    by (simp add: ex_run_trace_low fromVideoDownload_def)
  from inst[where A="ex_api True" and q=QUALITY_LOW, THEN conjunct2, THEN conjunct2,
        THEN conjunct1, rule_format, OF hyp3]
  obtain u where "urlToDownload QUALITY_LOW ex_video = Some u"
    and "let k = announcedAt ex_state
           (final (downloadVideo ex_lib (ex_api True) QUALITY_LOW ''/dl'' ex_video None None ex_state));
             ok = downloadFile (ex_api True) (k + 1) u (join ex_lib ''/dl'' (videoFilename ex_lib ex_video u))
         in fromVideoDownload ?low =
               [LoggerVideoDownload (name ex_video) (videoFilename ex_lib ex_video u),
                ApiDownloadFile u (join ex_lib ''/dl'' (videoFilename ex_lib ex_video u)) ok] @
               (if ok then [TrackerMarkDownloaded ''/dl'' (video_id ex_video)] else [])"
    by blast
  then have u: "urlToDownload QUALITY_LOW ex_video = Some ''https://v.example/foo_1800.mp4''"
    by (simp add: low Let_def)
  from tr tr' r ans u low show ?thesis by blast
qed

section \<open>Completion is recorded after a successful download\<close>

text \<open>
  Claim C1. The main identifier of a video is marked completed in the ledger only after
  the download of the video file reported success: after the procedure the identifier is
  marked iff it was marked before or the trace ends with a successful download followed
  by the marking. When the download fails (the trace ends with a failed download),
  \<open>failed\<close> has grown by one, the other counters are unchanged, and the identifier is
  not marked, so a later run tries again. \<open>failed\<close> changes in no other way. All of
  this holds of the state the procedure leaves, whether it returned or was ended by an
  exception of the metadata write.
\<close>

theorem marked_only_after_success:
  "(video_id v \<in> ledger (final (downloadVideo L A q d v f t s)) d \<longleftrightarrow>
      video_id v \<in> ledger s d \<or>
      (\<exists>pre url p. since s (final (downloadVideo L A q d v f t s)) =
          pre @ [ApiDownloadFile url p True, TrackerMarkDownloaded d (video_id v)])) \<and>
   (since s (final (downloadVideo L A q d v f t s)) = pre' @ [ApiDownloadFile url' p' False] \<longrightarrow>
      counts (final (downloadVideo L A q d v f t s)) =
        (counts s)\<lparr>failed := failed (counts s) + 1\<rparr> \<and>
      video_id v \<notin> ledger (final (downloadVideo L A q d v f t s)) d) \<and>
   (failed (counts (final (downloadVideo L A q d v f t s))) \<noteq> failed (counts s) \<longrightarrow>
      (\<exists>pre url p. since s (final (downloadVideo L A q d v f t s)) =
          pre @ [ApiDownloadFile url p False]))"
proof (intro conjI impI)
  let ?s' = "final (downloadVideo L A q d v f t s)"
  show "video_id v \<in> ledger ?s' d \<longleftrightarrow>
      video_id v \<in> ledger s d \<or>
      (\<exists>pre url p. since s ?s' =
          pre @ [ApiDownloadFile url p True, TrackerMarkDownloaded d (video_id v)])"
  proof (cases "video_id v \<in> ledger s d")
    case True
    then show ?thesis by (simp add: ledger_downloadVideo)
  next
    case nt: False
    show ?thesis
    proof
      assume "video_id v \<in> ledger ?s' d"
      with nt show "video_id v \<in> ledger s d \<or>
        (\<exists>pre url p. since s ?s' =
          pre @ [ApiDownloadFile url p True, TrackerMarkDownloaded d (video_id v)])"
        using success_suffix[of f L v t d s q A] by (simp add: ledger_downloadVideo)
    next
      assume "video_id v \<in> ledger s d \<or>
        (\<exists>pre url p. since s ?s' =
          pre @ [ApiDownloadFile url p True, TrackerMarkDownloaded d (video_id v)])"
      with nt obtain pre url p where
        "since s ?s' = pre @ [ApiDownloadFile url p True, TrackerMarkDownloaded d (video_id v)]"
        by blast
      then have "last (since s ?s') = TrackerMarkDownloaded d (video_id v)"
        by simp
      then show "video_id v \<in> ledger ?s' d"
        by (simp add: last_since_downloadVideo ledger_downloadVideo split: if_splits)
    qed
  qed
next
  let ?s' = "final (downloadVideo L A q d v f t s)"
  assume "since s ?s' = pre' @ [ApiDownloadFile url' p' False]"
  then have l: "last (since s ?s') = ApiDownloadFile url' p' False"
    by simp
  from l show "counts ?s' = (counts s)\<lparr>failed := failed (counts s) + 1\<rparr>"
    by (simp add: last_since_downloadVideo counts_downloadVideo videoThrows_def split: if_splits)
  from l show "video_id v \<notin> ledger ?s' d"
    by (simp add: last_since_downloadVideo ledger_downloadVideo split: if_splits)
next
  let ?s' = "final (downloadVideo L A q d v f t s)"
  assume "failed (counts ?s') \<noteq> failed (counts s)"
  then show "\<exists>pre url p. since s ?s' = pre @ [ApiDownloadFile url p False]"
    using failure_suffix[of f L v t d s q A]
    by (simp add: counts_downloadVideo videoThrows_def split: if_splits)
qed

text \<open>The example video, not marked at first: when every download succeeds it is marked;
  when every download fails, \<open>failed\<close> is one and it stays unmarked.\<close>

theorem marked_only_after_success_witness:
  "video_id ex_video \<notin> ledger ex_state ''/dl'' \<and>
   video_id ex_video \<in> ledger
     (final (downloadVideo ex_lib (ex_api True) QUALITY_HIGHEST ''/dl'' ex_video None None ex_state))
     ''/dl'' \<and>
   counts (final (downloadVideo ex_lib (ex_api False) QUALITY_HIGHEST ''/dl'' ex_video None None ex_state)) =
     \<lparr>downloaded = 0, skipped = 0, failed = 1\<rparr> \<and>
   video_id ex_video \<notin> ledger
     (final (downloadVideo ex_lib (ex_api False) QUALITY_HIGHEST ''/dl'' ex_video None None ex_state))
     ''/dl''"
proof -
  note inst = marked_only_after_success[where L=ex_lib and q=QUALITY_HIGHEST and d="''/dl''"
      and v=ex_video and f=None and t=None and s=ex_state]
  have unmarked: "video_id ex_video \<notin> ledger ex_state ''/dl''"
    by (simp add: ex_state_def)
  have "since ex_state (final (downloadVideo ex_lib (ex_api True) QUALITY_HIGHEST ''/dl'' ex_video None None ex_state)) =
      [LoggerDebug ''Writing metadata for video'',
       FsWriteFile ''/dl/2022-05-17 13_00_00 - Quick Look_ A_B.metadata.json'' (JsonVideo ex_video) True,
       LoggerPosterDownload ''video image'' ''/dl/2022-05-17 13_00_00 - Quick Look_ A_B.jpg'',
       ApiDownloadFile ''https://img.example/qa.jpg'' ''/dl/2022-05-17 13_00_00 - Quick Look_ A_B.jpg'' True,
       TrackerMarkDownloaded ''/dl'' ''4242_image'',
       LoggerVideoDownload ''Quick Look: A/B'' ''2022-05-17 - Quick Look: A/B.mp4'',
       LoggerDebug ''Checking if 8k bitrate video exists'',
       ApiCheckIfExists ''https://v.example/foo_8000.mp4'' True,
       LoggerDebug ''Found 8k bitrate video, downloading that''] @
      [ApiDownloadFile ''https://v.example/foo_8000.mp4'' ''/dl/2022-05-17 - Quick Look: A/B.mp4'' True,
       TrackerMarkDownloaded ''/dl'' (video_id ex_video)]"
    by (simp add: ex_run_trace) (simp add: ex_video_def)
  then have marked: "video_id ex_video \<in> ledger
     (final (downloadVideo ex_lib (ex_api True) QUALITY_HIGHEST ''/dl'' ex_video None None ex_state))
     ''/dl''"
    using inst[where A="ex_api True"] by blast
  have "since ex_state (final (downloadVideo ex_lib (ex_api False) QUALITY_HIGHEST ''/dl'' ex_video None None ex_state)) =
      [LoggerDebug ''Writing metadata for video'',
       FsWriteFile ''/dl/2022-05-17 13_00_00 - Quick Look_ A_B.metadata.json'' (JsonVideo ex_video) True,
       LoggerPosterDownload ''video image'' ''/dl/2022-05-17 13_00_00 - Quick Look_ A_B.jpg'',
       ApiDownloadFile ''https://img.example/qa.jpg'' ''/dl/2022-05-17 13_00_00 - Quick Look_ A_B.jpg'' False,
       LoggerVideoDownload ''Quick Look: A/B'' ''2022-05-17 - Quick Look: A/B.mp4'',
       LoggerDebug ''Checking if 8k bitrate video exists'',
       ApiCheckIfExists ''https://v.example/foo_8000.mp4'' True,
       LoggerDebug ''Found 8k bitrate video, downloading that''] @
      [ApiDownloadFile ''https://v.example/foo_8000.mp4'' ''/dl/2022-05-17 - Quick Look: A/B.mp4'' False]"
    by (simp add: ex_run_trace_fail)
  then have "counts (final (downloadVideo ex_lib (ex_api False) QUALITY_HIGHEST ''/dl'' ex_video None None ex_state)) =
        (counts ex_state)\<lparr>failed := failed (counts ex_state) + 1\<rparr> \<and>
      video_id ex_video \<notin> ledger
        (final (downloadVideo ex_lib (ex_api False) QUALITY_HIGHEST ''/dl'' ex_video None None ex_state))
        ''/dl''"
    using inst[where A="ex_api False"] by blast
  then show ?thesis using unmarked marked
    by (simp add: ex_state_def zero_counts_def)
qed

section \<open>Backfill for videos already downloaded\<close>

text \<open>
  Claim C3 reads: for every video whose main identifier is already marked completed, the
  metadata file (if absent) and the image (if its key is untracked) are still handled
  before the procedure increments \<open>skipped\<close> and returns. The date filter comes first,
  though: a marked video outside the date range is skipped with neither handled. In the
  example the video is marked, has no metadata file and an untracked image, and lies
  before \<open>fromDate\<close>; the only call made is the logger's, and no metadata file exists
  afterwards.
\<close>

theorem tracked_video_out_of_range_counterexample:
  "video_id ex_video \<in> ledger ex_tracked ''/dl'' \<and>
   \<not> existsSync ex_tracked (metadataPath ex_lib ''/dl'' ex_video) \<and>
   image_url ex_video = Some ''https://img.example/qa.jpg'' \<and>
   video_id ex_video @ ''_image'' \<notin> ledger ex_tracked ''/dl'' \<and>
   since ex_tracked (final (downloadVideo ex_lib (ex_api True) QUALITY_HD ''/dl'' ex_video
      (Some (ex_dayjs ''2022-05-18'')) None ex_tracked)) =
     [LoggerEpisodeSkipBeforeDate ''Quick Look: A/B'' (Instant 1652792400000)
        (Some (Instant 1652832000000))] \<and>
   \<not> existsSync (final (downloadVideo ex_lib (ex_api True) QUALITY_HD ''/dl'' ex_video
      (Some (ex_dayjs ''2022-05-18'')) None ex_tracked)) (metadataPath ex_lib ''/dl'' ex_video) \<and>
   counts (final (downloadVideo ex_lib (ex_api True) QUALITY_HD ''/dl'' ex_video
      (Some (ex_dayjs ''2022-05-18'')) None ex_tracked)) =
     \<lparr>downloaded = 0, skipped = 1, failed = 0\<rparr>"
  by (simp add: video_steps state_ops since_def Let_def
        endOf_day_def startOf_day_def ms_per_day_def
        ex_tracked_def ex_lib_def ex_api_def ex_state_def ex_sanitize_def ex_extname_def
        ex_join_def ex_dayjs_def ex_video_def zero_counts_def)

text \<open>
  Claim C3, amended. For every video that passes the date filter (always, when no bounds
  are given, as in identifier mode) and whose main identifier is already marked
  completed: the procedure writes the metadata file if it is absent, fetches the image
  if the video has one and its key is untracked (marking the key on success), and only
  then reports the video as already downloaded; the metadata file exists afterwards and
  \<open>skipped\<close> has grown by one, the other counters unchanged. That is the course of
  every such invocation in which the metadata write does not throw; when it throws, the
  attempted write is the last event, the procedure does not return and no counter
  changes.
\<close>

theorem tracked_video_backfills:
  assumes "\<not> strictlyBefore (dayjs L (publish_date v)) f"
      and "\<not> strictlyAfter (dayjs L (publish_date v)) t"
      and "video_id v \<in> ledger s d"
  shows "since s (final (downloadVideo L A q d v f t s)) =
           metadataEvents L d v s @
           (if metadataThrows L d v s then []
            else imageEvents L A d v (afterMetadata L d v s) @
                 [LoggerVideoSkipDownloaded (name v)]) \<and>
         (\<not> metadataThrows L d v s \<longrightarrow>
            downloadVideo L A q d v f t s = Inr (final (downloadVideo L A q d v f t s)) \<and>
            existsSync (final (downloadVideo L A q d v f t s)) (metadataPath L d v) \<and>
            counts (final (downloadVideo L A q d v f t s)) =
              (counts s)\<lparr>skipped := skipped (counts s) + 1\<rparr>) \<and>
         (metadataThrows L d v s \<longrightarrow>
            downloadVideo L A q d v f t s =
              Inl (Uncaught (metadataPath L d v), final (downloadVideo L A q d v f t s)) \<and>
            last (since s (final (downloadVideo L A q d v f t s))) =
              FsWriteFile (metadataPath L d v) (JsonVideo v) False \<and>
            counts (final (downloadVideo L A q d v f t s)) = counts s)"
proof (intro conjI impI)
  from assms have nb: "\<not> bound_test f (isBefore_day (dayjs L (publish_date v)))"
    and na: "\<not> bound_test t (isAfter_day (dayjs L (publish_date v)))"
    by (simp_all add: before_iff after_iff)
  show "since s (final (downloadVideo L A q d v f t s)) =
           metadataEvents L d v s @
           (if metadataThrows L d v s then []
            else imageEvents L A d v (afterMetadata L d v s) @
                 [LoggerVideoSkipDownloaded (name v)])"
    using nb na assms(3) by (simp add: since_downloadVideo)
  {
    assume nm: "\<not> metadataThrows L d v s"
    with nb na have nt: "\<not> videoThrows L d v f t s" by (simp add: videoThrows_def)
    then show "downloadVideo L A q d v f t s = Inr (final (downloadVideo L A q d v f t s))"
      using downloadVideo_result[of L A q d v f t s] by simp
    show "existsSync (final (downloadVideo L A q d v f t s)) (metadataPath L d v)"
      using nm video_metadata_exists[OF nb na] by simp
    show "counts (final (downloadVideo L A q d v f t s)) =
        (counts s)\<lparr>skipped := skipped (counts s) + 1\<rparr>"
      using nt assms(3) by (simp add: counts_downloadVideo)
  }
  {
    assume m: "metadataThrows L d v s"
    with nb na have th: "videoThrows L d v f t s" by (simp add: videoThrows_def)
    then show "downloadVideo L A q d v f t s =
        Inl (Uncaught (metadataPath L d v), final (downloadVideo L A q d v f t s))"
      using downloadVideo_result[of L A q d v f t s] by simp
    show "last (since s (final (downloadVideo L A q d v f t s))) =
        FsWriteFile (metadataPath L d v) (JsonVideo v) False"
      using nb na m by (simp add: last_since_downloadVideo)
    show "counts (final (downloadVideo L A q d v f t s)) = counts s"
      using th by (simp add: counts_downloadVideo)
  }
qed

text \<open>The marked example video with \<open>fromDate\<close> on its publish day: metadata is written,
  the image is fetched and marked, then the video is skipped.\<close>

theorem tracked_video_backfills_witness:
  "since ex_tracked (final (downloadVideo ex_lib (ex_api True) QUALITY_HD ''/dl'' ex_video
      (Some (ex_dayjs ''2022-05-17'')) None ex_tracked)) =
     [LoggerDebug ''Writing metadata for video'',
      FsWriteFile ''/dl/2022-05-17 13_00_00 - Quick Look_ A_B.metadata.json'' (JsonVideo ex_video) True,
      LoggerPosterDownload ''video image'' ''/dl/2022-05-17 13_00_00 - Quick Look_ A_B.jpg'',
      ApiDownloadFile ''https://img.example/qa.jpg'' ''/dl/2022-05-17 13_00_00 - Quick Look_ A_B.jpg'' True,
      TrackerMarkDownloaded ''/dl'' ''4242_image'',
      LoggerVideoSkipDownloaded ''Quick Look: A/B''] \<and>
   counts (final (downloadVideo ex_lib (ex_api True) QUALITY_HD ''/dl'' ex_video
      (Some (ex_dayjs ''2022-05-17'')) None ex_tracked)) =
     \<lparr>downloaded = 0, skipped = 1, failed = 0\<rparr>"
  using tracked_video_backfills[where L=ex_lib and A="ex_api True" and q=QUALITY_HD and d="''/dl''"
      and v=ex_video and f="Some (ex_dayjs ''2022-05-17'')" and t=None and s=ex_tracked]
  by (simp add: metadataEvents_def imageEvents_def afterMetadata_def writeVideoMetadata_def
        writeFileSync_def metadataThrows_def state_ops
        metadataPath_def imagePath_def filename_def day_of_def ms_per_day_def
        ex_tracked_def ex_lib_steps ex_api_def ex_state_def ex_video_def zero_counts_def)

section \<open>Counters\<close>

text \<open>
  Claim C10 reads: every invocation of the per-video procedure increments exactly one of
  the three counters by exactly one, and so after a show-mode run the counters sum to the
  number of videos in the list. The write of the metadata file is not guarded against
  exceptions, and it comes before every counter update of a video that passed the date
  filter. The base name is cut to 255 characters by \<open>sanitize\<close> and \<open>.metadata.json\<close>
  is appended after that: for the example video under a title of 250 characters the name
  of the metadata file has 269 characters, the write throws, the procedure does not
  return, and all three counters are as they were.
\<close>

theorem long_title_counterexample:
  "length (name ex_long_video) = 250 \<and>
   length (filename ex_lib ex_long_video @ ''.metadata.json'') = 269 \<and>
   downloadVideo ex_lib (ex_api True) QUALITY_LOW ''/dl'' ex_long_video None None ex_state =
     Inl (Uncaught (metadataPath ex_lib ''/dl'' ex_long_video),
          emit (FsWriteFile (metadataPath ex_lib ''/dl'' ex_long_video) (JsonVideo ex_long_video) False)
            (emit (LoggerDebug ''Writing metadata for video'') ex_state)) \<and>
   counts (final (downloadVideo ex_lib (ex_api True) QUALITY_LOW ''/dl'' ex_long_video None None
                    ex_state)) = counts ex_state \<and>
   \<not> one_more (counts ex_state)
        (counts (final (downloadVideo ex_lib (ex_api True) QUALITY_LOW ''/dl'' ex_long_video None None
                          ex_state)))"
proof -
  have th: "metadataThrows ex_lib ''/dl'' ex_long_video ex_state"
    by (rule ex_long_video_throws)
  then have run: "downloadVideo ex_lib (ex_api True) QUALITY_LOW ''/dl'' ex_long_video None None ex_state =
      Inl (Uncaught (metadataPath ex_lib ''/dl'' ex_long_video),
          emit (FsWriteFile (metadataPath ex_lib ''/dl'' ex_long_video) (JsonVideo ex_long_video) False)
            (emit (LoggerDebug ''Writing metadata for video'') ex_state))"
    by (simp add: downloadVideo_def processVideo_def bound_test_def writeVideoMetadata_def
          writeFileSync_def metadataThrows_def emit_def now_def)
  have c: "counts (final (downloadVideo ex_lib (ex_api True) QUALITY_LOW ''/dl'' ex_long_video None None
                    ex_state)) = counts ex_state"
    unfolding run by (simp add: emit_def)
  have "length (name ex_long_video) = 250"
    by (simp add: ex_long_video_def)
  moreover have "length (filename ex_lib ex_long_video @ ''.metadata.json'') = 269"
    by (simp add: filename_def ex_lib_def length_ex_sanitize ex_long_video_def ex_video_def)
  moreover have "\<not> one_more (counts ex_state)
        (counts (final (downloadVideo ex_lib (ex_api True) QUALITY_LOW ''/dl'' ex_long_video None None
                          ex_state)))"
    unfolding c by (simp add: one_more_def ex_state_def zero_counts_def)
  ultimately show ?thesis using run c by blast
qed

text \<open>
  Claim C10, amended. Every invocation of the per-video procedure that returns has
  incremented exactly one of the three counters by exactly one and left the other two
  unchanged; the image step changes none of them, whether its fetch succeeds or fails.
  An invocation returns unless the video passes the date filter and the write of its
  metadata file throws; then the exception is uncaught, no counter has changed, and the
  loop over the videos ends with it. So when a show-mode run completes,
  \<open>downloaded + skipped + failed\<close> is the number of videos in the list of the show;
  and the run does complete when the show and its list of videos are found and no call
  of the file system throws.
\<close>

theorem one_counter_per_video:
  "(downloadVideo L A q d v f t s = Inr s1 \<longrightarrow> one_more (counts s) (counts s1)) \<and>
   (downloadVideo L A q d v f t s = Inl (e, s1) \<longrightarrow>
      e = Uncaught (metadataPath L d v) \<and> counts s1 = counts s \<and>
      forVideos L A q d f t (v # videos) s = Inl (e, s1)) \<and>
   ((\<exists>s1. downloadVideo L A q d v f t s = Inr s1) \<longleftrightarrow> \<not> videoThrows L d v f t s) \<and>
   counts (downloadVideoImage L A d v s) = counts s \<and>
   (downloadShow L A P dir s = Inr s' \<longrightarrow>
      (\<exists>sh videos. getShowInfo A (opt_show P) = Some sh \<and> getVideos A sh = Some videos \<and>
         downloaded (counts s') + skipped (counts s') + failed (counts s') = length videos)) \<and>
   (getShowInfo A (opt_show P) = Some sh \<and> getVideos A sh = Some vs \<and>
    (\<forall>n p. \<not> writeThrows L n p \<and> \<not> mkdirThrows L n p) \<longrightarrow>
      (\<exists>s'. downloadShow L A P dir s = Inr s'))"
proof (intro conjI impI)
  assume r: "downloadVideo L A q d v f t s = Inr s1"
  then have nt: "\<not> videoThrows L d v f t s"
    and s1: "s1 = final (downloadVideo L A q d v f t s)"
    unfolding downloadVideo_Inr by simp_all
  from nt show "one_more (counts s) (counts s1)"
    unfolding s1 by (simp add: counts_downloadVideo one_more_def)
next
  assume l: "downloadVideo L A q d v f t s = Inl (e, s1)"
  from counts_downloadVideo_Inl[OF l]
  show "e = Uncaught (metadataPath L d v)" and "counts s1 = counts s" by simp_all
  from l show "forVideos L A q d f t (v # videos) s = Inl (e, s1)" by simp
next
  show "(\<exists>s1. downloadVideo L A q d v f t s = Inr s1) \<longleftrightarrow> \<not> videoThrows L d v f t s"
    unfolding downloadVideo_Inr by simp
  show "counts (downloadVideoImage L A d v s) = counts s"
    by (rule counts_downloadVideoImage)
next
  assume "downloadShow L A P dir s = Inr s'"
  then obtain sh videos s2 s4 where sv: "getShowInfo A (opt_show P) = Some sh"
      "getVideos A sh = Some videos"
    and loop: "forVideos L A (opt_quality P) (showDirectory L dir sh)
          (parseDate L (opt_from_date P)) (parseDate L (opt_to_date P)) videos
          ((emit (ApiGetVideos sh) s2)\<lparr>counts := zero_counts\<rparr>) = Inr s4"
    and s': "s' = emit (LoggerShowComplete (title sh) (counts s4)) s4"
    unfolding downloadShow_Inr by blast
  have "total (counts s4) = length videos"
    using total_forVideos[OF loop] by (simp add: total_def zero_counts_def)
  then have "total (counts s') = length videos" by (simp add: s' emit_def)
  with sv show "\<exists>sh videos. getShowInfo A (opt_show P) = Some sh \<and> getVideos A sh = Some videos \<and>
         downloaded (counts s') + skipped (counts s') + failed (counts s') = length videos"
    by (simp add: total_def)
next
  assume a: "getShowInfo A (opt_show P) = Some sh \<and> getVideos A sh = Some vs \<and>
    (\<forall>n p. \<not> writeThrows L n p \<and> \<not> mkdirThrows L n p)"
  then have "\<And>n p. \<not> writeThrows L n p" "\<And>n p. \<not> mkdirThrows L n p"
    "getShowInfo A (opt_show P) = Some sh" "getVideos A sh = Some vs"
    by simp_all
  then show "\<exists>s'. downloadShow L A P dir s = Inr s'" by (rule downloadShow_returns)
qed

text \<open>The example show has one video; the run completes with counters that sum to one.
  The example video is processed with one counter incremented, and with a file system
  that never throws the run of the example show completes.\<close>

theorem one_counter_per_video_witness:
  "(\<exists>s'. downloadShow ex_lib (ex_api True) ex_program ''/dl'' ex_state = Inr s' \<and>
      downloaded (counts s') + skipped (counts s') + failed (counts s') = 1) \<and>
   (\<exists>s1. downloadVideo ex_lib (ex_api True) QUALITY_LOW ''/dl'' ex_video None None ex_state = Inr s1 \<and>
      one_more (counts ex_state) (counts s1)) \<and>
   (\<exists>s'. downloadShow (ex_lib\<lparr>writeThrows := \<lambda>n p. False, mkdirThrows := \<lambda>n p. False\<rparr>)
      (ex_api True) ex_program ''/dl'' ex_state = Inr s')"
proof -
  note inst = one_counter_per_video[where A="ex_api True" and P=ex_program
      and dir="''/dl''" and s=ex_state and sh=ex_show and vs="[ex_video]" and q=QUALITY_LOW
      and d="''/dl''" and v=ex_video and f=None and t=None]
  obtain s' where run: "downloadShow ex_lib (ex_api True) ex_program ''/dl'' ex_state = Inr s'"
    using ex_show_run_counts
    by (cases "downloadShow ex_lib (ex_api True) ex_program ''/dl'' ex_state") auto
  with inst[where L=ex_lib and s'=s'] obtain sh videos where
    "getShowInfo (ex_api True) (opt_show ex_program) = Some sh"
    "getVideos (ex_api True) sh = Some videos"
    "downloaded (counts s') + skipped (counts s') + failed (counts s') = length videos"
    by blast
  then have "downloaded (counts s') + skipped (counts s') + failed (counts s') = 1"
    by (auto simp add: ex_api_def)
  with run have a: "\<exists>s'. downloadShow ex_lib (ex_api True) ex_program ''/dl'' ex_state = Inr s' \<and>
      downloaded (counts s') + skipped (counts s') + failed (counts s') = 1"
    by blast
  have "downloadVideo ex_lib (ex_api True) QUALITY_LOW ''/dl'' ex_video None None ex_state =
      Inr (final (downloadVideo ex_lib (ex_api True) QUALITY_LOW ''/dl'' ex_video None None ex_state))"
    by (rule ex_run_returns)
  with inst[where L=ex_lib] have b: "\<exists>s1. downloadVideo ex_lib (ex_api True) QUALITY_LOW ''/dl'' ex_video
        None None ex_state = Inr s1 \<and> one_more (counts ex_state) (counts s1)"
    by blast
  have found: "getShowInfo (ex_api True) (opt_show ex_program) = Some ex_show \<and>
      getVideos (ex_api True) ex_show = Some [ex_video] \<and>
      (\<forall>n p. \<not> writeThrows (ex_lib\<lparr>writeThrows := \<lambda>n p. False, mkdirThrows := \<lambda>n p. False\<rparr>) n p \<and>
             \<not> mkdirThrows (ex_lib\<lparr>writeThrows := \<lambda>n p. False, mkdirThrows := \<lambda>n p. False\<rparr>) n p)"
    by (simp add: ex_api_def ex_program_def)
  with inst[where L="ex_lib\<lparr>writeThrows := \<lambda>n p. False, mkdirThrows := \<lambda>n p. False\<rparr>"]
  have c: "\<exists>s'. downloadShow (ex_lib\<lparr>writeThrows := \<lambda>n p. False, mkdirThrows := \<lambda>n p. False\<rparr>)
      (ex_api True) ex_program ''/dl'' ex_state = Inr s'"
    by blast
  from a b c show ?thesis by blast
qed

section \<open>Running the same invocation twice\<close>

text \<open>
  Claim C6 reads: a second identical show-mode invocation on the same directory, with no
  external changes, yields \<open>downloaded = 0\<close>, \<open>failed = 0\<close> and \<open>skipped\<close> equal to the
  number of videos. In the example the show has one video and every download fails, in
  both runs: the failed download of the first run leaves the video unmarked, and the
  second run ends with \<open>failed = 1\<close> and \<open>skipped = 0\<close>.
\<close>

theorem rerun_after_failure_counterexample:
  "map_sum id counts (downloadShow ex_lib (ex_api False) ex_program ''/dl'' ex_state) =
     Inr \<lparr>downloaded = 0, skipped = 0, failed = 1\<rparr> \<and>
   map_sum id counts
     (thenShow ex_lib (ex_api False) ex_program ''/dl''
        (downloadShow ex_lib (ex_api False) ex_program ''/dl'' ex_state)) =
     Inr \<lparr>downloaded = 0, skipped = 0, failed = 1\<rparr>"
  by (simp add: thenShow_def show_steps video_steps state_ops Let_def split_beta replace_8000_def
        is_digit_def ex_lib_steps ex_api_def ex_state_def ex_video_def ex_show_def ex_program_def
        zero_counts_def)

text \<open>
  Claim C6, amended. When a show-mode run has completed with \<open>failed = 0\<close>, a second
  identical invocation on the state it left, with the same catalog responses (the
  outcomes of its downloads and probes may differ), completes with \<open>downloaded = 0\<close>,
  \<open>failed = 0\<close> and \<open>skipped\<close> equal to the number of videos in the list of the show.
\<close>

theorem rerun_skips_everything:
  assumes "downloadShow L A P dir s = Inr s1"
      and "failed (counts s1) = 0"
      and "getShowInfo A' = getShowInfo A" and "getVideos A' = getVideos A"
  shows "\<exists>sh videos s2. getShowInfo A (opt_show P) = Some sh \<and> getVideos A sh = Some videos \<and>
           downloadShow L A' P dir s1 = Inr s2 \<and>
           counts s2 = \<lparr>downloaded = 0, skipped = length videos, failed = 0\<rparr>"
proof -
  from assms(1) obtain sh videos s2 s4 where sh: "getShowInfo A (opt_show P) = Some sh"
    and videos: "getVideos A sh = Some videos"
    and prep: "prepareShow L A (showDirectory L dir sh) sh (emit (ApiGetShowInfo (opt_show P)) s) =
        Inr s2"
    and loop: "forVideos L A (opt_quality P) (showDirectory L dir sh)
          (parseDate L (opt_from_date P)) (parseDate L (opt_to_date P)) videos
          ((emit (ApiGetVideos sh) s2)\<lparr>counts := zero_counts\<rparr>) = Inr s4"
    and s1: "s1 = emit (LoggerShowComplete (title sh) (counts s4)) s4"
    unfolding downloadShow_Inr by blast
  let ?q = "opt_quality P" and ?d = "showDirectory L dir sh"
  let ?f = "parseDate L (opt_from_date P)" and ?t = "parseDate L (opt_to_date P)"
  let ?s3 = "(emit (ApiGetVideos sh) s2)\<lparr>counts := zero_counts\<rparr>"
  have g34: "guarded ?s3 s4"
    using guarded_forVideos[of ?s3 L A ?q ?d ?f ?t videos] loop by simp
  have g41: "guarded s4 s1" unfolding s1 by (rule guarded_emit) simp
  have "existsSync s2 ?d \<and> existsSync s2 (join L ?d ''metadata.json'')"
    using prep by (rule prepareShow_Inr)
  then have "existsSync ?s3 ?d" "existsSync ?s3 (join L ?d ''metadata.json'')"
    by (simp_all add: existsSync_def emit_def)
  then have "existsSync s4 ?d" "existsSync s4 (join L ?d ''metadata.json'')"
    using g34 by (simp_all add: guarded_def)
  then have dir: "existsSync s1 ?d" and meta: "existsSync s1 (join L ?d ''metadata.json'')"
    using g41 by (simp_all add: guarded_def)
  have nofail: "failed (counts s4) = failed (counts ?s3)"
    using assms(2) by (simp add: s1 emit_def zero_counts_def)
  have quiet: "settled L ?q ?d ?f ?t s1 v \<and> documented L ?d ?f ?t s1 v" if "v \<in> set videos" for v
  proof -
    have "settled L ?q ?d ?f ?t s4 v" using loop nofail that by (rule settled_after_forVideos)
    moreover have "ledger s4 ?d \<subseteq> ledger s1 ?d" by (simp add: s1 emit_def)
    ultimately have "settled L ?q ?d ?f ?t s1 v" by (rule settled_mono)
    moreover have "documented L ?d ?f ?t s4 v" using loop that by (rule documented_after_forVideos)
    then have "documented L ?d ?f ?t s1 v" using g41 by (rule documented_mono)
    ultimately show ?thesis by simp
  qed
  have sh': "getShowInfo A' (opt_show P) = Some sh" and videos': "getVideos A' sh = Some videos"
    using sh videos assms(3,4) by simp_all
  from quiet_downloadShow[of A' P sh videos s1 L dir, OF sh' videos' dir meta quiet]
  obtain s2' where "downloadShow L A' P dir s1 = Inr s2'"
    and "counts s2' = \<lparr>downloaded = 0, skipped = length videos, failed = 0\<rparr>"
    by blast
  with sh videos show ?thesis by blast
qed

text \<open>The example show, every download succeeding: the first run downloads the video, the
  second one skips it.\<close>

theorem rerun_skips_everything_witness:
  "map_sum id counts
     (thenShow ex_lib (ex_api True) ex_program ''/dl''
        (downloadShow ex_lib (ex_api True) ex_program ''/dl'' ex_state)) =
     Inr \<lparr>downloaded = 0, skipped = 1, failed = 0\<rparr>"
proof -
  obtain s1 where run1: "downloadShow ex_lib (ex_api True) ex_program ''/dl'' ex_state = Inr s1"
    and c1: "counts s1 = \<lparr>downloaded = 1, skipped = 0, failed = 0\<rparr>"
    using ex_show_run_counts
    by (cases "downloadShow ex_lib (ex_api True) ex_program ''/dl'' ex_state") auto
  from c1 have "failed (counts s1) = 0" by simp
  from rerun_skips_everything[OF run1 this refl refl]
  obtain sh videos s2 where v: "getVideos (ex_api True) sh = Some videos"
    and run2: "downloadShow ex_lib (ex_api True) ex_program ''/dl'' s1 = Inr s2"
    and c2: "counts s2 = \<lparr>downloaded = 0, skipped = length videos, failed = 0\<rparr>"
    by blast
  from v have "length videos = 1" by (auto simp add: ex_api_def)
  with run1 run2 c2 show ?thesis
    by (simp add: thenShow_def)
qed

section \<open>Identifier mode\<close>

text \<open>
  Claim C9. In identifier mode the identifiers are looked up one at a time in the order
  given. An identifier that is not found increments \<open>failed\<close> by one and the loop goes
  on with the next one; a found video runs the per-video procedure with no date bounds,
  and the loop goes on with the next identifier when that procedure returns. So the date
  filter skips nothing in this mode, the result does not depend on \<open>--from_date\<close> and
  \<open>--to_date\<close>, and after a run that completes the three counters sum to the number of
  identifiers.
\<close>

theorem identifier_mode:
  "(downloadVideosById L A P dir s = Inr s' \<longrightarrow>
      (\<exists>ids. opt_video_id P = Some ids \<and>
         lookups (since s s') = split_comma ids \<and>
         filter isDateSkip (since s s') = [] \<and>
         downloaded (counts s') + skipped (counts s') + failed (counts s') =
           length (split_comma ids))) \<and>
   downloadVideosById L A (P\<lparr>opt_from_date := x, opt_to_date := y\<rparr>) dir s =
     downloadVideosById L A P dir s \<and>
   (getVideoById A (now s) i = None \<longrightarrow>
      forVideoIds L A q d (i # rest) s =
        forVideoIds L A q d rest (inc_failed (emit (ApiGetVideoById i) s))) \<and>
   (getVideoById A (now s) i = Some v \<longrightarrow>
      forVideoIds L A q d (i # rest) s =
        andThen (downloadVideo L A q d v None None (emit (ApiGetVideoById i) s))
          (forVideoIds L A q d rest))"
proof (intro conjI impI)
  assume "downloadVideosById L A P dir s = Inr s'"
  then obtain ids s1 where ids: "opt_video_id P = Some ids"
    and loop: "forVideoIds L A (opt_quality P) dir (split_comma ids) (s\<lparr>counts := zero_counts\<rparr>) =
        Inr s1"
    and s': "s' = emit (LoggerVideosComplete (length (split_comma ids)) (counts s1)) s1"
    unfolding downloadVideosById_Inr by blast
  let ?s0 = "s\<lparr>counts := zero_counts\<rparr>"
  have "extends ?s0 s1"
    using extends_forVideoIds[of ?s0 L A "opt_quality P" dir "split_comma ids"] loop by simp
  then have "trace s1 = trace ?s0 @ since ?s0 s1" by (rule extends_since)
  then have "trace s' = trace s @ since ?s0 s1 @
      [LoggerVideosComplete (length (split_comma ids)) (counts s1)]"
    by (simp add: s' emit_def)
  then have sp: "since s s' = since ?s0 s1 @
      [LoggerVideosComplete (length (split_comma ids)) (counts s1)]"
    by (rule since_ext)
  have facts: "lookups (since ?s0 s1) = split_comma ids"
    "filter isDateSkip (since ?s0 s1) = []"
    "total (counts s1) = total (counts ?s0) + length (split_comma ids)"
    using forVideoIds_trace_facts[OF loop] by blast+
  have "counts s' = counts s1" by (simp add: s' emit_def)
  with facts(3) have "downloaded (counts s') + skipped (counts s') + failed (counts s') =
           length (split_comma ids)"
    by (simp add: total_def zero_counts_def)
  with ids facts(1,2) show "\<exists>ids. opt_video_id P = Some ids \<and>
         lookups (since s s') = split_comma ids \<and>
         filter isDateSkip (since s s') = [] \<and>
         downloaded (counts s') + skipped (counts s') + failed (counts s') =
           length (split_comma ids)"
    unfolding sp by (simp add: lookups_append)
next
  show "downloadVideosById L A (P\<lparr>opt_from_date := x, opt_to_date := y\<rparr>) dir s =
     downloadVideosById L A P dir s"
    by (simp add: downloadVideosById_def Let_def split: option.splits)
next
  assume "getVideoById A (now s) i = None"
  then show "forVideoIds L A q d (i # rest) s =
        forVideoIds L A q d rest (inc_failed (emit (ApiGetVideoById i) s))"
    by simp
next
  assume "getVideoById A (now s) i = Some v"
  then show "forVideoIds L A q d (i # rest) s =
        andThen (downloadVideo L A q d v None None (emit (ApiGetVideoById i) s))
          (forVideoIds L A q d rest)"
    by simp
qed

text \<open>\<open>--video_id 4242,9999\<close> with \<open>--from_date\<close> after the publish date of video 4242:
  both identifiers are looked up in order, 4242 is downloaded and 9999 counts as failed.\<close>

theorem identifier_mode_witness:
  "\<exists>s'. downloadVideosById ex_lib (ex_api True) ex_ids_program ''/dl'' ex_state = Inr s' \<and>
      lookups (since ex_state s') = [''4242'', ''9999''] \<and>
      filter isDateSkip (since ex_state s') = [] \<and>
      counts s' = \<lparr>downloaded = 1, skipped = 0, failed = 1\<rparr>"
proof -
  obtain s' where run: "downloadVideosById ex_lib (ex_api True) ex_ids_program ''/dl'' ex_state = Inr s'"
    and c: "counts s' = \<lparr>downloaded = 1, skipped = 0, failed = 1\<rparr>"
    using ex_ids_run
    by (cases "downloadVideosById ex_lib (ex_api True) ex_ids_program ''/dl'' ex_state") auto
  from identifier_mode[where L=ex_lib and A="ex_api True" and P=ex_ids_program and dir="''/dl''"
      and s=ex_state and s'=s'] run
  obtain ids where "opt_video_id ex_ids_program = Some ids"
    "lookups (since ex_state s') = split_comma ids" "filter isDateSkip (since ex_state s') = []"
    by blast
  then have "lookups (since ex_state s') = [''4242'', ''9999'']"
    "filter isDateSkip (since ex_state s') = []"
    by (auto simp add: ex_ids_program_def)
  with run c show ?thesis by blast
qed

section \<open>Metadata is written once\<close>

text \<open>
  Claim C8. A metadata file, of a show or of a video, is written only if nothing exists
  at its path. During the per-video procedure and during a whole show-mode run, however
  they end, no path that exists at the start is ever the target of \<open>fs.writeFileSync\<close>,
  and such a path holds afterwards what it held before (in this model a successful
  download aimed at the very same path would replace it). The only write of the
  per-video procedure is the JSON of the video to its metadata path. After a video has
  passed the date filter and the procedure has returned, its metadata file exists (when
  the procedure was ended by the exception of the write, it does not), and after a
  show-mode run that completes the \<open>metadata.json\<close> of the show exists; so processing
  the same show or video again writes no metadata, whatever the fields of the record
  fetched then.
\<close>

theorem metadata_written_once:
  "(existsSync s p \<longrightarrow>
      FsWriteFile p c b \<notin> set (since s (final (downloadVideo L A q d v f t s))) \<and>
      ((\<forall>u. ApiDownloadFile u p True \<notin> set (since s (final (downloadVideo L A q d v f t s)))) \<longrightarrow>
         files (final (downloadVideo L A q d v f t s)) p = files s p)) \<and>
   (FsWriteFile p c b \<in> set (since s (final (downloadVideo L A q d v f t s))) \<longrightarrow>
      p = metadataPath L d v \<and> c = JsonVideo v) \<and>
   (\<not> strictlyBefore (dayjs L (publish_date v)) f \<and>
    \<not> strictlyAfter (dayjs L (publish_date v)) t \<longrightarrow>
      (existsSync (final (downloadVideo L A q d v f t s)) (metadataPath L d v) \<longleftrightarrow>
         (\<exists>s1. downloadVideo L A q d v f t s = Inr s1))) \<and>
   (existsSync s p \<longrightarrow>
      FsWriteFile p c b \<notin> set (since s (final (downloadShow L A P dir s))) \<and>
      ((\<forall>u. ApiDownloadFile u p True \<notin> set (since s (final (downloadShow L A P dir s)))) \<longrightarrow>
         files (final (downloadShow L A P dir s)) p = files s p)) \<and>
   (downloadShow L A P dir s = Inr s' \<and> getShowInfo A (opt_show P) = Some sh \<longrightarrow>
      existsSync s' (join L (showDirectory L dir sh) ''metadata.json''))"
proof (intro conjI impI)
  assume "existsSync s p"
  with guarded_downloadVideo[of s L A q d v f t]
  show "FsWriteFile p c b \<notin> set (since s (final (downloadVideo L A q d v f t s)))"
    by (simp add: guarded_def)
next
  assume "existsSync s p"
    and "\<forall>u. ApiDownloadFile u p True \<notin> set (since s (final (downloadVideo L A q d v f t s)))"
  with guarded_downloadVideo[of s L A q d v f t]
  show "files (final (downloadVideo L A q d v f t s)) p = files s p"
    by (simp add: guarded_def)
next
  assume w: "FsWriteFile p c b \<in> set (since s (final (downloadVideo L A q d v f t s)))"
  from write_in_since_downloadVideo[OF w]
  show "p = metadataPath L d v" and "c = JsonVideo v" by simp_all
next
  assume "\<not> strictlyBefore (dayjs L (publish_date v)) f \<and>
    \<not> strictlyAfter (dayjs L (publish_date v)) t"
  then have nb: "\<not> bound_test f (isBefore_day (dayjs L (publish_date v)))"
    and na: "\<not> bound_test t (isAfter_day (dayjs L (publish_date v)))"
    by (simp_all add: before_iff after_iff)
  then have "(\<exists>s1. downloadVideo L A q d v f t s = Inr s1) \<longleftrightarrow> \<not> metadataThrows L d v s"
    unfolding downloadVideo_Inr by (simp add: videoThrows_def)
  then show "existsSync (final (downloadVideo L A q d v f t s)) (metadataPath L d v) \<longleftrightarrow>
         (\<exists>s1. downloadVideo L A q d v f t s = Inr s1)"
    using video_metadata_exists[OF nb na] by simp
next
  assume "existsSync s p"
  with guarded_downloadShow[of s L A P dir]
  show "FsWriteFile p c b \<notin> set (since s (final (downloadShow L A P dir s)))"
    by (simp add: guarded_def)
next
  assume "existsSync s p"
    and "\<forall>u. ApiDownloadFile u p True \<notin> set (since s (final (downloadShow L A P dir s)))"
  with guarded_downloadShow[of s L A P dir]
  show "files (final (downloadShow L A P dir s)) p = files s p"
    by (simp add: guarded_def)
next
  assume "downloadShow L A P dir s = Inr s' \<and> getShowInfo A (opt_show P) = Some sh"
  then show "existsSync s' (join L (showDirectory L dir sh) ''metadata.json'')"
    using show_metadata_exists by blast
qed

text \<open>The metadata file of the example video exists from an earlier run, with the
  record as it was then (no hd URL). Processing the video again, with its record changed
  upstream, writes nothing to that path and leaves the old record in the file.\<close>

theorem metadata_written_once_witness:
  "existsSync ex_old_metadata ''/dl/2022-05-17 13_00_00 - Quick Look_ A_B.metadata.json'' \<and>
   metadataPath ex_lib ''/dl'' ex_video = ''/dl/2022-05-17 13_00_00 - Quick Look_ A_B.metadata.json'' \<and>
   FsWriteFile ''/dl/2022-05-17 13_00_00 - Quick Look_ A_B.metadata.json'' (JsonVideo ex_video) True \<notin>
     set (since ex_old_metadata
       (final (downloadVideo ex_lib (ex_api True) QUALITY_LOW ''/dl'' ex_video None None ex_old_metadata))) \<and>
   files (final (downloadVideo ex_lib (ex_api True) QUALITY_LOW ''/dl'' ex_video None None ex_old_metadata))
       ''/dl/2022-05-17 13_00_00 - Quick Look_ A_B.metadata.json'' =
     Some (JsonVideo (ex_video\<lparr>hd_url := None\<rparr>))"
proof -
  let ?p = "''/dl/2022-05-17 13_00_00 - Quick Look_ A_B.metadata.json''"
  let ?s' = "final (downloadVideo ex_lib (ex_api True) QUALITY_LOW ''/dl'' ex_video None None
                      ex_old_metadata)"
  have ex: "existsSync ex_old_metadata ?p"
    by (simp add: ex_old_metadata_def existsSync_def)
  have mp: "metadataPath ex_lib ''/dl'' ex_video = ?p"
    by (simp add: metadataPath_def filename_def ex_lib_def ex_video_def ex_sanitize_def ex_join_def)
  have nd: "\<forall>u. ApiDownloadFile u ?p True \<notin> set (since ex_old_metadata ?s')"
    by (simp add: ex_old_metadata_run)
  note inst = metadata_written_once[where s=ex_old_metadata and p="?p" and c="JsonVideo ex_video"
      and b=True and L=ex_lib and A="ex_api True" and q=QUALITY_LOW and d="''/dl''" and v=ex_video
      and f=None and t=None]
  from inst ex have nw: "FsWriteFile ?p (JsonVideo ex_video) True \<notin> set (since ex_old_metadata ?s')"
    by blast
  from inst ex nd have "files ?s' ?p = files ex_old_metadata ?p"
    by blast
  then have "files ?s' ?p = Some (JsonVideo (ex_video\<lparr>hd_url := None\<rparr>))"
    by (simp add: ex_old_metadata_def)
  with ex mp nw show ?thesis by blast
qed

section \<open>File names\<close>

text \<open>
  Claim C7 says that the names of all files written for a video (metadata file, image,
  video file) are derived from the sanitized base name. The metadata file and the image
  are; the name of the video file is built from the first ten characters of the publish
  date and the video name as they are, and is never passed to \<open>sanitize\<close>. For the
  example video, named \<open>Quick Look: A/B\<close>, the metadata file and the image are named
  after \<open>2022-05-17 13_00_00 - Quick Look_ A_B\<close>, while the download is aimed at
  \<open>/dl/2022-05-17 - Quick Look: A/B.mp4\<close>.
\<close>

theorem video_file_name_not_sanitized:
  "videoFilename (L\<lparr>sanitize := g\<rparr>) v u = videoFilename L v u \<and>
   filename ex_lib ex_video = ''2022-05-17 13_00_00 - Quick Look_ A_B'' \<and>
   since ex_state
     (final (downloadVideo ex_lib (ex_api True) QUALITY_HIGHEST ''/dl'' ex_video None None ex_state)) =
    [LoggerDebug ''Writing metadata for video'',
     FsWriteFile ''/dl/2022-05-17 13_00_00 - Quick Look_ A_B.metadata.json'' (JsonVideo ex_video) True,
     LoggerPosterDownload ''video image'' ''/dl/2022-05-17 13_00_00 - Quick Look_ A_B.jpg'',
     ApiDownloadFile ''https://img.example/qa.jpg'' ''/dl/2022-05-17 13_00_00 - Quick Look_ A_B.jpg'' True,
     TrackerMarkDownloaded ''/dl'' ''4242_image'',
     LoggerVideoDownload ''Quick Look: A/B'' ''2022-05-17 - Quick Look: A/B.mp4'',
     LoggerDebug ''Checking if 8k bitrate video exists'',
     ApiCheckIfExists ''https://v.example/foo_8000.mp4'' True,
     LoggerDebug ''Found 8k bitrate video, downloading that'',
     ApiDownloadFile ''https://v.example/foo_8000.mp4'' ''/dl/2022-05-17 - Quick Look: A/B.mp4'' True,
     TrackerMarkDownloaded ''/dl'' ''4242'']"
  by (simp add: ex_run_trace)
     (simp add: videoFilename_def filename_def ex_lib_def ex_video_def ex_sanitize_def)


end
